theory Spec2Isabelle
  imports Main "HOL-Library.Sublist"
begin

section \<open>Python values and exceptions\<close>

text \<open>
  The script \<^verbatim>\<open>excel.py\<close> works on text (URLs, file names), on spreadsheet cells, on
  parsed JSON bodies and on two remote services. Text is a \<^typ>\<open>string\<close>; the model
  covers text of code points below 256, where a character here is one code point of
  Python.
  Every exception the script can meet is a value of \<open>py_exc\<close>; a computation that may
  raise returns \<open>py_exc + 'a\<close>.
\<close>

datatype py_exc =
    IndexError
  | KeyError
  | AttributeError
  | TypeError
  | OSError
  | RequestException
  | JSONDecodeError
  | SystemExit int

text \<open>\<^verbatim>\<open>except Exception\<close> catches everything but \<^verbatim>\<open>SystemExit\<close>.\<close>

fun is_Exception :: "py_exc \<Rightarrow> bool" where
  "is_Exception (SystemExit _) = False"
| "is_Exception _ = True"

text \<open>
  One type for the dynamic values the script handles: a spreadsheet cell is \<open>PNaN\<close>
  (an empty cell), a string, a number, a boolean or a timestamp (held as its ISO text);
  a decoded JSON body is \<open>PNone\<close>, a boolean, a number, a string, a list or an object.
\<close>

datatype pyval =
    PNone
  | PNaN
  | PBool bool
  | PNum int
  | PStr string
  | PTimestamp string
  | PList "pyval list"
  | PDict "(string \<times> pyval) list"

text \<open>Python truthiness (\<^verbatim>\<open>not v\<close> is its negation). A NaN float is truthy.\<close>

fun truthy :: "pyval \<Rightarrow> bool" where
  "truthy PNone = False"
| "truthy PNaN = True"
| "truthy (PBool b) = b"
| "truthy (PNum n) = (n \<noteq> 0)"
| "truthy (PStr s) = (s \<noteq> [])"
| "truthy (PTimestamp _) = True"
| "truthy (PList xs) = (xs \<noteq> [])"
| "truthy (PDict kvs) = (kvs \<noteq> [])"

text \<open>\<^verbatim>\<open>v.get(k)\<close>: only a dict has the method; a missing key gives \<^verbatim>\<open>None\<close>.\<close>

fun py_get :: "pyval \<Rightarrow> string \<Rightarrow> py_exc + pyval" where
  "py_get (PDict kvs) k = Inr (case map_of kvs k of None \<Rightarrow> PNone | Some v \<Rightarrow> v)"
| "py_get _ k = Inl AttributeError"

text \<open>\<^verbatim>\<open>pd.isna\<close> on a scalar.\<close>

fun isna :: "pyval \<Rightarrow> bool" where
  "isna PNone = True"
| "isna PNaN = True"
| "isna _ = False"

section \<open>String operations of the Python library\<close>

text \<open>\<^verbatim>\<open>sub in s\<close>: \<open>sub\<close> occurs in \<open>s\<close> as a contiguous block.\<close>

fun py_in :: "string \<Rightarrow> string \<Rightarrow> bool" where
  "py_in sub [] = (sub = [])"
| "py_in sub (c # cs) = (prefix sub (c # cs) \<or> py_in sub cs)"

text \<open>
  \<^verbatim>\<open>s.split(sep)\<close> for a non-empty separator: the pieces between the occurrences of
  \<open>sep\<close>, found from the left without overlap. Every call of the script passes a
  literal, non-empty separator. The result is never the empty list, so the first case
  of the inner \<open>case\<close> is never taken (\<open>split_on_not_Nil\<close>).
\<close>

function split_on :: "string \<Rightarrow> string \<Rightarrow> string list" where
  "split_on sep [] = [[]]"
| "split_on sep (c # cs) =
     (if sep \<noteq> [] \<and> prefix sep (c # cs)
      then [] # split_on sep (drop (length sep) (c # cs))
      else (case split_on sep cs of
              [] \<Rightarrow> [[c]]
            | p # ps \<Rightarrow> (c # p) # ps))"
  by pat_completeness auto
termination
  by (relation "measure (\<lambda>(sep, s). length s)") (auto simp: neq_Nil_conv)

text \<open>\<^verbatim>\<open>xs[i]\<close> with Python's negative indices; out of range raises.\<close>

definition py_index :: "'a list \<Rightarrow> int \<Rightarrow> py_exc + 'a" where
  "py_index xs i =
     (if 0 \<le> i \<and> i < int (length xs) then Inr (xs ! nat i)
      else if i < 0 \<and> - int (length xs) \<le> i then Inr (xs ! nat (int (length xs) + i))
      else Inl IndexError)"

text \<open>Sequencing of computations that may raise.\<close>

definition and_then :: "py_exc + 'a \<Rightarrow> ('a \<Rightarrow> py_exc + 'b) \<Rightarrow> py_exc + 'b" where
  "and_then r f = (case r of Inl e \<Rightarrow> Inl e | Inr v \<Rightarrow> f v)"

text \<open>
  \<^verbatim>\<open>s.lower()\<close>: below code point 256, the capital letters are \<^verbatim>\<open>A\<close> to
  \<^verbatim>\<open>Z\<close> and the code points 0xC0 to 0xDE without 0xD7 (the multiplication sign); the
  small letter of each is 32 code points above it.
\<close>

definition upper_letters :: "char list" where
  "upper_letters =
     ''ABCDEFGHIJKLMNOPQRSTUVWXYZ'' @
     [CHR 0xC0, CHR 0xC1, CHR 0xC2, CHR 0xC3, CHR 0xC4, CHR 0xC5, CHR 0xC6, CHR 0xC7,
     CHR 0xC8, CHR 0xC9, CHR 0xCA, CHR 0xCB, CHR 0xCC, CHR 0xCD, CHR 0xCE, CHR 0xCF,
     CHR 0xD0, CHR 0xD1, CHR 0xD2, CHR 0xD3, CHR 0xD4, CHR 0xD5, CHR 0xD6, CHR 0xD8,
     CHR 0xD9, CHR 0xDA, CHR 0xDB, CHR 0xDC, CHR 0xDD, CHR 0xDE]"

definition lower_letters :: "char list" where
  "lower_letters =
     ''abcdefghijklmnopqrstuvwxyz'' @
     [CHR 0xE0, CHR 0xE1, CHR 0xE2, CHR 0xE3, CHR 0xE4, CHR 0xE5, CHR 0xE6, CHR 0xE7,
     CHR 0xE8, CHR 0xE9, CHR 0xEA, CHR 0xEB, CHR 0xEC, CHR 0xED, CHR 0xEE, CHR 0xEF,
     CHR 0xF0, CHR 0xF1, CHR 0xF2, CHR 0xF3, CHR 0xF4, CHR 0xF5, CHR 0xF6, CHR 0xF8,
     CHR 0xF9, CHR 0xFA, CHR 0xFB, CHR 0xFC, CHR 0xFD, CHR 0xFE]"

definition lower_char :: "char \<Rightarrow> char" where
  "lower_char c =
     (case map_of (zip upper_letters lower_letters) c of
        None \<Rightarrow> c
      | Some d \<Rightarrow> d)"

definition py_lower :: "string \<Rightarrow> string" where
  "py_lower s = map lower_char s"

text \<open>\<^verbatim>\<open>s.lstrip(chars)\<close> and \<^verbatim>\<open>s.strip(chars)\<close> for a set of characters.\<close>

definition lstrip_chars :: "char list \<Rightarrow> string \<Rightarrow> string" where
  "lstrip_chars chars s = dropWhile (\<lambda>c. c \<in> set chars) s"

definition strip_chars :: "char list \<Rightarrow> string \<Rightarrow> string" where
  "strip_chars chars s = rev (lstrip_chars chars (rev (lstrip_chars chars s)))"

text \<open>
  \<^verbatim>\<open>s.strip()\<close> removes whitespace at both ends; below code point 256, whitespace is
  the code points 9 to 13 and 28 to 32, 0x85 (next line) and 0xA0 (no-break space).
\<close>

definition whitespace :: "char list" where
  "whitespace =
     [CHR 0x09, CHR 0x0A, CHR 0x0B, CHR 0x0C, CHR 0x0D, CHR 0x1C, CHR 0x1D, CHR 0x1E, CHR 0x1F, CHR 0x20,
      CHR 0x85, CHR 0xA0]"

definition py_strip :: "string \<Rightarrow> string" where
  "py_strip s = strip_chars whitespace s"

text \<open>\<^verbatim>\<open>s.rfind(c)\<close>: the index of the last \<open>c\<close>, \<open>None\<close> for Python's \<open>-1\<close>.\<close>

definition rfind_char :: "char \<Rightarrow> string \<Rightarrow> nat option" where
  "rfind_char c s =
     (if c \<in> set s then Some (length s - 1 - length (takeWhile (\<lambda>d. d \<noteq> c) (rev s)))
      else None)"

section \<open>The type classifier\<close>

text \<open>
  \<^verbatim>\<open>Path(filename).name\<close> on a POSIX system: the last component of the path, where
  empty components and \<^verbatim>\<open>.\<close> components do not count; empty when there is none.
\<close>

definition path_name :: "string \<Rightarrow> string" where
  "path_name p =
     (case filter (\<lambda>c. c \<noteq> [] \<and> c \<noteq> ''.'') (split_on ''/'' p) of
        [] \<Rightarrow> []
      | c # cs \<Rightarrow> last (c # cs))"

text \<open>
  \<^verbatim>\<open>Path.suffix\<close>: with \<open>i\<close> the index of the last dot of the name, the name from
  \<open>i\<close> on when \<open>0 < i < len(name) - 1\<close>, and empty otherwise.
\<close>

definition path_suffix :: "string \<Rightarrow> string" where
  "path_suffix p =
     (let name = path_name p in
      case rfind_char (CHR ''.'') name of
        None \<Rightarrow> []
      | Some i \<Rightarrow> if 0 < i \<and> int i < int (length name) - 1 then drop i name else [])"

text \<open>\<^verbatim>\<open>get_file_type\<close>, lines 187 to 201.\<close>

definition get_file_type :: "string \<Rightarrow> string" where
  "get_file_type filename =
     (let ext = lstrip_chars ''.'' (py_lower (path_suffix filename)) in
      if ext \<in> set [''pdf''] then ''pdf''
      else if ext \<in> set [''doc'', ''docx''] then ''docx''
      else if ext \<in> set [''ppt'', ''pptx''] then ''pptx''
      else if ext \<in> set [''xls'', ''xlsx''] then ''xlsx''
      else ext)"

section \<open>The link resolver\<close>

text \<open>
  The first lines of \<^verbatim>\<open>download_file\<close> (140 to 145) rewrite a sharing link of the
  file-hosting provider into its direct-download form. An index out of range would
  raise, and \<^verbatim>\<open>download_file\<close> would catch it and report a failed download.
\<close>

definition direct_download :: "string \<Rightarrow> string" where
  "direct_download file_id = ''https://drive.google.com/uc?export=download&id='' @ file_id"

definition resolve_url :: "string \<Rightarrow> py_exc + string" where
  "resolve_url url =
     (if py_in ''drive.google.com/file/d/'' url then
        and_then (py_index (split_on ''/file/d/'' url) 1) (\<lambda>a.
        and_then (py_index (split_on ''/'' a) 0) (\<lambda>b.
        and_then (py_index (split_on ''?'' b) 0) (\<lambda>file_id.
        Inr (direct_download file_id))))
      else if py_in ''drive.google.com/open?id='' url then
        and_then (py_index (split_on ''open?id='' url) 1) (\<lambda>a.
        and_then (py_index (split_on ''&'' a) 0) (\<lambda>file_id.
        Inr (direct_download file_id)))
      else Inr url)"

section \<open>The outside world\<close>

text \<open>
  What the script cannot decide is a parameter of the model: the identifiers
  \<^verbatim>\<open>uuid.uuid4()\<close> draws, the clock, the answers of the web server, of the object
  store and of the catalog, the tables of \<^verbatim>\<open>mimetypes\<close>, whether a file can be
  created, and \<^verbatim>\<open>pd.to_datetime\<close>. The answers of the services may depend on the
  number of network calls made before (the first argument) and on the request.
\<close>

record get_response =
  status_ok :: bool
  content_disposition :: "string option"
  content_type :: "string option"
  length_header_ok :: bool
  body :: string
  stream_ok :: bool

datatype get_outcome = GetRaised | GetResponse get_response

text \<open>A POST answers with a status code and a body; the body is \<open>None\<close> when it is not JSON.\<close>

datatype post_outcome = PostRaised | PostResponse int "pyval option"

record env =
  uuid4 :: "nat \<Rightarrow> string"
  clock :: "nat \<Rightarrow> string"
  http_get :: "nat \<Rightarrow> string \<Rightarrow> get_outcome"
  storage_post :: "nat \<Rightarrow> string \<Rightarrow> string \<Rightarrow> string \<Rightarrow> post_outcome"
  catalog_post :: "nat \<Rightarrow> string \<Rightarrow> pyval \<Rightarrow> post_outcome"
  guess_type :: "string \<Rightarrow> string option"
  guess_extension :: "string \<Rightarrow> string option"
  can_write :: "string \<Rightarrow> bool"
  to_datetime :: "string \<Rightarrow> string option"
  temp_dir :: string

text \<open>
  The network calls the script makes, in order: a GET of a URL, an upload of bytes to the
  object store (bucket, key, content, content-type header) and an insert of a record
  into a table of the catalog.
\<close>

datatype event =
    HttpGet string
  | StorageUpload string string string "string option"
  | CatalogInsert string pyval

record world =
  trace :: "event list"
  uuids_drawn :: nat
  files :: "(string \<times> string) list"

definition world0 :: world where
  "world0 = \<lparr>trace = [], uuids_drawn = 0, files = []\<rparr>"

definition emit :: "event \<Rightarrow> world \<Rightarrow> world" where
  "emit e w = w\<lparr>trace := trace w @ [e]\<rparr>"

section \<open>The two service helpers\<close>

text \<open>
  \<^verbatim>\<open>supabase_upload_file\<close>, lines 85 to 103: \<^verbatim>\<open>None\<close> unless the status code is 200,
  and the decoded body otherwise; the POST and the decoding may raise.
\<close>

definition supabase_upload_file ::
  "env \<Rightarrow> string \<Rightarrow> string \<Rightarrow> string \<Rightarrow> string option \<Rightarrow> world \<Rightarrow> (py_exc + pyval) \<times> world" where
  "supabase_upload_file ev bucket path file_content ctype w =
     (let header = (case ctype of None \<Rightarrow> None | Some t \<Rightarrow> if t \<noteq> [] then Some t else None);
          w' = emit (StorageUpload bucket path file_content header) w
      in case storage_post ev (length (trace w)) bucket path file_content of
           PostRaised \<Rightarrow> (Inl RequestException, w')
         | PostResponse status_code json \<Rightarrow>
             if status_code \<noteq> 200 then (Inr PNone, w')
             else (case json of
                     None \<Rightarrow> (Inl JSONDecodeError, w')
                   | Some v \<Rightarrow> (Inr v, w')))"

text \<open>\<^verbatim>\<open>supabase_insert_record\<close>, lines 105 to 122: the same with status code 201.\<close>

definition supabase_insert_record ::
  "env \<Rightarrow> string \<Rightarrow> pyval \<Rightarrow> world \<Rightarrow> (py_exc + pyval) \<times> world" where
  "supabase_insert_record ev table record w =
     (let w' = emit (CatalogInsert table record) w
      in case catalog_post ev (length (trace w)) table record of
           PostRaised \<Rightarrow> (Inl RequestException, w')
         | PostResponse status_code json \<Rightarrow>
             if status_code \<noteq> 201 then (Inr PNone, w')
             else (case json of
                     None \<Rightarrow> (Inl JSONDecodeError, w')
                   | Some v \<Rightarrow> (Inr v, w')))"

section \<open>The fetcher\<close>

text \<open>\<^verbatim>\<open>os.path.join(a, b)\<close> on a POSIX system.\<close>

definition path_join :: "string \<Rightarrow> string \<Rightarrow> string" where
  "path_join a b =
     (if prefix ''/'' b then b
      else if a = [] \<or> last a = CHR ''/'' then a @ b
      else a @ ''/'' @ b)"

text \<open>
  Lines 151 to 164: the file name of a download, from the \<^verbatim>\<open>Content-Disposition\<close>
  header when it names one, and from the last segment of the URL otherwise.
\<close>

definition infer_filename :: "env \<Rightarrow> string \<Rightarrow> get_response \<Rightarrow> py_exc + string" where
  "infer_filename ev url r =
     (let from_url =
            and_then (py_index (split_on ''/'' url) (- 1)) (\<lambda>a.
            and_then (py_index (split_on ''?'' a) 0) (\<lambda>filename.
            if \<not> py_in ''.'' filename then
              (case guess_extension ev (case content_type r of None \<Rightarrow> [] | Some t \<Rightarrow> t) of
                 None \<Rightarrow> Inr filename
               | Some ext \<Rightarrow> if ext \<noteq> [] then Inr (filename @ ext) else Inr filename)
            else Inr filename))
      in case content_disposition r of
           None \<Rightarrow> from_url
         | Some cd \<Rightarrow>
             if cd \<noteq> [] \<and> py_in ''filename='' cd then
               and_then (py_index (split_on ''filename='' cd) 1)
                 (\<lambda>v. Inr (strip_chars [CHR 0x22, CHR 0x27] v))
             else from_url)"

text \<open>
  \<^verbatim>\<open>download_file\<close>, lines 136 to 185. Every exception is caught and gives
  \<^verbatim>\<open>(None, None)\<close>, here \<open>None\<close>. The GET goes to the rewritten URL. A stream that
  breaks leaves the bytes received so far in the scratch file.
\<close>

definition download_file ::
  "env \<Rightarrow> string \<Rightarrow> string \<Rightarrow> world \<Rightarrow> (string \<times> string) option \<times> world" where
  "download_file ev url0 tmp w =
     (case resolve_url url0 of
        Inl e \<Rightarrow> (None, w)
      | Inr url \<Rightarrow>
          (let w1 = emit (HttpGet url) w in
           case http_get ev (length (trace w)) url of
             GetRaised \<Rightarrow> (None, w1)
           | GetResponse r \<Rightarrow>
               if \<not> status_ok r then (None, w1)
               else (case infer_filename ev url r of
                       Inl e \<Rightarrow> (None, w1)
                     | Inr filename \<Rightarrow>
                         (let temp_file_path = path_join tmp filename in
                          if \<not> length_header_ok r then (None, w1)
                          else if \<not> can_write ev temp_file_path then (None, w1)
                          else
                            (let w2 = w1\<lparr>files := (temp_file_path, body r) # files w1\<rparr> in
                             if stream_ok r then (Some (temp_file_path, filename), w2)
                             else (None, w2))))))"

section \<open>The ingestor\<close>

text \<open>\<^verbatim>\<open>d.get(k, default)\<close> on the metadata dictionary, and \<^verbatim>\<open>d[k] = v\<close>.\<close>

definition dict_get :: "(string \<times> pyval) list \<Rightarrow> string \<Rightarrow> pyval \<Rightarrow> pyval" where
  "dict_get d k dflt = (case map_of d k of None \<Rightarrow> dflt | Some v \<Rightarrow> v)"

fun dict_set :: "(string \<times> pyval) list \<Rightarrow> string \<Rightarrow> pyval \<Rightarrow> (string \<times> pyval) list" where
  "dict_set [] k v = [(k, v)]"
| "dict_set ((k', v') # d) k v = (if k' = k then (k, v) # d else (k', v') # dict_set d k v)"

text \<open>
  Lines 239 to 246: the metadata dictionary. \<^verbatim>\<open>if metadata\<close> holds for a dictionary
  that is given and not empty.
\<close>

definition doc_metadata ::
  "(string \<times> pyval) list option \<Rightarrow> string \<Rightarrow> string \<Rightarrow> string \<Rightarrow> pyval" where
  "doc_metadata metadata filename file_type now =
     (let given = (case metadata of None \<Rightarrow> False | Some m \<Rightarrow> m \<noteq> []);
          m = (case metadata of None \<Rightarrow> [] | Some m \<Rightarrow> m)
      in PDict
        [(''title'', if given then dict_get m ''name'' (PStr filename) else PStr filename),
         (''author'', if given then dict_get m ''author'' PNone else PNone),
         (''upload_date'', PStr now),
         (''last_modified'', if given then dict_get m ''date'' PNone else PStr now),
         (''file_type'', PStr file_type),
         (''source_url'', if given then dict_get m ''url'' PNone else PNone)])"

text \<open>Lines 249 to 260: the record sent to the catalog. \<^verbatim>\<open>d[k]\<close> on a key that is there.\<close>

definition field :: "pyval \<Rightarrow> string \<Rightarrow> pyval" where
  "field d k = (case py_get d k of Inl e \<Rightarrow> PNone | Inr v \<Rightarrow> v)"


definition catalog_record ::
  "string \<Rightarrow> string \<Rightarrow> string \<Rightarrow> nat \<Rightarrow> string \<Rightarrow> pyval \<Rightarrow> pyval" where
  "catalog_record document_id filename file_type file_size storage_path md =
     PDict
       [(''id'', PStr document_id),
        (''filename'', PStr filename),
        (''filetype'', PStr file_type),
        (''filesize'', PNum (int file_size)),
        (''storage_path'', PStr storage_path),
        (''title'', field md ''title''),
        (''author'', field md ''author''),
        (''upload_date'', field md ''upload_date''),
        (''last_modified'', field md ''last_modified''),
        (''metadata'', md)]"

text \<open>
  \<^verbatim>\<open>upload_to_supabase\<close>, lines 203 to 271. The identifier is drawn first. Every
  exception (a file that cannot be read, a POST that fails, a body that is not JSON, a
  result without a \<^verbatim>\<open>get\<close> method) is caught and gives \<^verbatim>\<open>None\<close>.
\<close>

definition upload_to_supabase ::
  "env \<Rightarrow> string \<Rightarrow> string \<Rightarrow> (string \<times> pyval) list option \<Rightarrow> world \<Rightarrow> string option \<times> world" where
  "upload_to_supabase ev file_path filename metadata w =
     (let document_id = uuid4 ev (uuids_drawn w);
          w0 = w\<lparr>uuids_drawn := Suc (uuids_drawn w)\<rparr>;
          file_type = get_file_type filename
      in case map_of (files w0) file_path of
           None \<Rightarrow> (None, w0)
         | Some file_content \<Rightarrow>
             (let file_size = length file_content;
                  mimetype = guess_type ev filename;
                  storage_path = document_id @ ''/'' @ filename;
                  ctype = (case mimetype of
                             None \<Rightarrow> ''application/octet-stream''
                           | Some t \<Rightarrow> if t \<noteq> [] then t else ''application/octet-stream'')
              in case supabase_upload_file ev ''documents'' storage_path file_content (Some ctype) w0 of
                   (Inl e, w1) \<Rightarrow> (None, w1)
                 | (Inr result, w1) \<Rightarrow>
                     if \<not> truthy result then (None, w1)
                     else (case py_get result ''Key'' of
                             Inl e \<Rightarrow> (None, w1)
                           | Inr key \<Rightarrow>
                               if \<not> truthy key then (None, w1)
                               else
                                 (let now = clock ev (length (trace w1));
                                      md = doc_metadata metadata filename file_type now;
                                      record = catalog_record document_id filename file_type
                                                 file_size storage_path md
                                  in case supabase_insert_record ev ''documents'' record w1 of
                                       (Inl e, w2) \<Rightarrow> (None, w2)
                                     | (Inr db_result, w2) \<Rightarrow>
                                         if \<not> truthy db_result then (None, w2)
                                         else (Some document_id, w2)))))"

section \<open>The orchestrator\<close>

text \<open>
  The command line, the sheet as \<^verbatim>\<open>pd.read_excel\<close> returns it (the labels of the
  columns, and each row as the cells under the labels), and the two counters of
  \<^verbatim>\<open>main\<close>. The sheet selector only decides which sheet is read.
\<close>

record args =
  excel_file :: string
  column :: string
  name_column :: "string option"
  type_column :: "string option"
  author_column :: "string option"
  date_column :: "string option"

record dataframe =
  columns :: "pyval list"
  rows :: "(pyval \<times> pyval) list list"

datatype workbook = NoFile | Unreadable | Sheet dataframe

record tally =
  successful_uploads :: nat
  failed_uploads :: nat

definition tally0 :: tally where
  "tally0 = \<lparr>successful_uploads = 0, failed_uploads = 0\<rparr>"

text \<open>\<^verbatim>\<open>row[label]\<close>.\<close>

definition row_get :: "(pyval \<times> pyval) list \<Rightarrow> pyval \<Rightarrow> py_exc + pyval" where
  "row_get row label = (case map_of row label of None \<Rightarrow> Inl KeyError | Some v \<Rightarrow> Inr v)"

text \<open>
  \<^verbatim>\<open>if args.c and args.c in df.columns: ... row[args.c] ...\<close>: the cell of an optional
  column changes the metadata only when the column is named and is in the sheet.
\<close>

definition with_column ::
  "string option \<Rightarrow> pyval list \<Rightarrow> (pyval \<times> pyval) list \<Rightarrow>
   (pyval \<Rightarrow> (string \<times> pyval) list \<Rightarrow> (string \<times> pyval) list) \<Rightarrow>
   (string \<times> pyval) list \<Rightarrow> py_exc + (string \<times> pyval) list" where
  "with_column c cols row f m =
     (case c of
        None \<Rightarrow> Inr m
      | Some n \<Rightarrow>
          if n \<noteq> [] \<and> PStr n \<in> set cols
          then and_then (row_get row (PStr n)) (\<lambda>v. Inr (f v m))
          else Inr m)"

text \<open>
  Lines 322 to 331: a timestamp gives its ISO text, a string is parsed and kept as it is
  when it does not parse, and any other cell sets no date.
\<close>

definition set_date :: "env \<Rightarrow> pyval \<Rightarrow> (string \<times> pyval) list \<Rightarrow> (string \<times> pyval) list" where
  "set_date ev date_value m =
     (case date_value of
        PTimestamp stamp \<Rightarrow> dict_set m ''date'' (PStr stamp)
      | PStr s \<Rightarrow>
          (case to_datetime ev s of
             Some parsed_date \<Rightarrow> dict_set m ''date'' (PStr parsed_date)
           | None \<Rightarrow> dict_set m ''date'' (PStr s))
      | _ \<Rightarrow> m)"

text \<open>Lines 311 to 334.\<close>

definition gather_metadata ::
  "env \<Rightarrow> args \<Rightarrow> pyval list \<Rightarrow> (pyval \<times> pyval) list \<Rightarrow> pyval \<Rightarrow>
   py_exc + (string \<times> pyval) list" where
  "gather_metadata ev a cols row url =
     and_then (with_column (name_column a) cols row (\<lambda>v m. dict_set m ''name'' v) [(''url'', url)]) (\<lambda>m1.
     and_then (with_column (author_column a) cols row (\<lambda>v m. dict_set m ''author'' v) m1) (\<lambda>m2.
     and_then (with_column (date_column a) cols row (set_date ev) m2) (\<lambda>m3.
     with_column (type_column a) cols row (\<lambda>v m. dict_set m ''type'' v) m3)))"

text \<open>
  The body of the loop, lines 302 to 350. \<open>Inr\<close> is the state the next row starts from;
  \<open>Inl\<close> is an exception that leaves the loop. The test
  \<^verbatim>\<open>pd.isna(url) or not url.strip()\<close> calls \<^verbatim>\<open>strip\<close> on every cell that is not
  missing, and only a string has the method.
\<close>

definition count_failure :: "tally \<Rightarrow> tally" where
  "count_failure t = t\<lparr>failed_uploads := failed_uploads t + 1\<rparr>"

definition count_success :: "tally \<Rightarrow> tally" where
  "count_success t = t\<lparr>successful_uploads := successful_uploads t + 1\<rparr>"

definition fetch_and_ingest ::
  "env \<Rightarrow> string \<Rightarrow> (string \<times> pyval) list \<Rightarrow> tally \<times> world \<Rightarrow> tally \<times> world" where
  "fetch_and_ingest ev url metadata s =
     (case s of (t, w) \<Rightarrow>
        (case download_file ev url (temp_dir ev) w of
           (None, w1) \<Rightarrow> (count_failure t, w1)
         | (Some (temp_file_path, filename), w1) \<Rightarrow>
             if temp_file_path = [] then (count_failure t, w1)
             else (case upload_to_supabase ev temp_file_path filename (Some metadata) w1 of
                     (None, w2) \<Rightarrow> (count_failure t, w2)
                   | (Some document_id, w2) \<Rightarrow>
                       if document_id \<noteq> [] then (count_success t, w2)
                       else (count_failure t, w2))))"

definition process_row ::
  "env \<Rightarrow> args \<Rightarrow> pyval list \<Rightarrow> (pyval \<times> pyval) list \<Rightarrow> tally \<times> world \<Rightarrow>
   py_exc + tally \<times> world" where
  "process_row ev a cols row s =
     and_then (row_get row (PStr (column a))) (\<lambda>url.
       case url of
         PStr u \<Rightarrow>
           if py_strip u = [] then Inr s
           else and_then (gather_metadata ev a cols row url)
                  (\<lambda>metadata. Inr (fetch_and_ingest ev u metadata s))
       | _ \<Rightarrow> if isna url then Inr s else Inl AttributeError)"

text \<open>
  The loop over the rows: an exception ends it, with the state the failing row started
  from (every exception of the body comes before its first effect).
\<close>

fun run_rows ::
  "env \<Rightarrow> args \<Rightarrow> pyval list \<Rightarrow> (pyval \<times> pyval) list list \<Rightarrow> tally \<times> world \<Rightarrow>
   py_exc option \<times> tally \<times> world" where
  "run_rows ev a cols [] s = (None, s)"
| "run_rows ev a cols (row # rest) s =
     (case process_row ev a cols row s of
        Inl e \<Rightarrow> (Some e, s)
      | Inr s' \<Rightarrow> run_rows ev a cols rest s')"

text \<open>
  The \<^verbatim>\<open>try\<close> block of \<^verbatim>\<open>main\<close>, lines 282 to 358. When the link column is missing,
  the message that lists the columns joins their labels, which raises for a label
  that is not a string; \<^verbatim>\<open>sys.exit(1)\<close> follows otherwise.
\<close>

fun is_str :: "pyval \<Rightarrow> bool" where
  "is_str (PStr _) = True"
| "is_str _ = False"

definition main_try :: "env \<Rightarrow> args \<Rightarrow> workbook \<Rightarrow> py_exc option \<times> tally \<times> world" where
  "main_try ev a wb =
     (case wb of
        Sheet df \<Rightarrow>
          if PStr (column a) \<notin> set (columns df) then
            (if list_all is_str (columns df) then (Some (SystemExit 1), tally0, world0)
             else (Some TypeError, tally0, world0))
          else run_rows ev a (columns df) (rows df) (tally0, world0)
      | _ \<Rightarrow> (Some OSError, tally0, world0))"

text \<open>
  \<^verbatim>\<open>main\<close>, lines 273 to 362, as the exit status of the process with the final
  counters and world. A missing file exits with 1 before the \<^verbatim>\<open>try\<close>;
  \<^verbatim>\<open>except Exception\<close> turns every exception into exit status 1 and lets
  \<^verbatim>\<open>SystemExit\<close> pass; a run that reaches the summary ends with status 0.
\<close>

definition main :: "env \<Rightarrow> args \<Rightarrow> workbook \<Rightarrow> int \<times> tally \<times> world" where
  "main ev a wb =
     (case wb of
        NoFile \<Rightarrow> (1, tally0, world0)
      | _ \<Rightarrow>
          (case main_try ev a wb of
             (None, s) \<Rightarrow> (0, s)
           | (Some e, s) \<Rightarrow>
               if is_Exception e then (1, s)
               else (case e of SystemExit n \<Rightarrow> (n, s) | _ \<Rightarrow> (1, s))))"

section \<open>Notions of the specification\<close>

text \<open>
  The result of the upload helper is a success indicator containing a storage key: it
  is truthy, and its \<^verbatim>\<open>Key\<close> entry is truthy.
\<close>

definition has_key :: "pyval \<Rightarrow> bool" where
  "has_key v = (truthy v \<and> (case py_get v ''Key'' of Inl e \<Rightarrow> False | Inr k \<Rightarrow> truthy k))"

text \<open>The answers of the object store after which the ingestor goes on: status 200 and a key.\<close>

definition accepted :: "post_outcome \<Rightarrow> bool" where
  "accepted ans =
     (case ans of
        PostResponse status_code (Some v) \<Rightarrow> status_code = 200 \<and> has_key v
      | _ \<Rightarrow> False)"

text \<open>
  The specification's words for the object store: success is a 200-class response
  containing a storage key.
\<close>

definition spec_storage_success :: "post_outcome \<Rightarrow> bool" where
  "spec_storage_success ans =
     (case ans of
        PostResponse status_code (Some v) \<Rightarrow> 200 \<le> status_code \<and> status_code < 300 \<and> has_key v
      | _ \<Rightarrow> False)"

fun is_catalog_insert :: "event \<Rightarrow> bool" where
  "is_catalog_insert (CatalogInsert _ _) = True"
| "is_catalog_insert _ = False"

text \<open>The identifiers of the records inserted into the catalog, in the order of the inserts.\<close>

fun inserted_ids :: "event list \<Rightarrow> pyval list" where
  "inserted_ids [] = []"
| "inserted_ids (CatalogInsert t r # es) = field r ''id'' # inserted_ids es"
| "inserted_ids (e # es) = inserted_ids es"

text \<open>
  The specification's words for the link resolver, with its two patterns as they are
  written there: the text after the first occurrence of a pattern, up to the next
  delimiter.
\<close>

fun after_first :: "string \<Rightarrow> string \<Rightarrow> string" where
  "after_first sep [] = []"
| "after_first sep (c # cs) =
     (if prefix sep (c # cs) then drop (length sep) (c # cs) else after_first sep cs)"

definition spec_resolve :: "string \<Rightarrow> string" where
  "spec_resolve url =
     (if py_in ''file/d/'' url then
        direct_download (takeWhile (\<lambda>c. c \<noteq> CHR ''/'' \<and> c \<noteq> CHR ''?'') (after_first ''file/d/'' url))
      else if py_in ''open?id='' url then
        direct_download (takeWhile (\<lambda>c. c \<noteq> CHR ''&'') (after_first ''open?id='' url))
      else url)"

text \<open>
  The specification's words for the type classifier: the extension is the text after
  the last dot of the file name, empty if there is none, in lower case.
\<close>

definition text_after_last_dot :: "string \<Rightarrow> string" where
  "text_after_last_dot s =
     (if CHR ''.'' \<in> set s then rev (takeWhile (\<lambda>c. c \<noteq> CHR ''.'') (rev s)) else [])"

definition canonical_type :: "string \<Rightarrow> string" where
  "canonical_type ext =
     (if ext = ''pdf'' then ''pdf''
      else if ext = ''doc'' \<or> ext = ''docx'' then ''docx''
      else if ext = ''ppt'' \<or> ext = ''pptx'' then ''pptx''
      else if ext = ''xls'' \<or> ext = ''xlsx'' then ''xlsx''
      else ext)"

definition spec_file_type :: "string \<Rightarrow> string" where
  "spec_file_type filename = canonical_type (py_lower (text_after_last_dot filename))"

section \<open>An example run\<close>

text \<open>
  A world for the examples: every identifier drawn is new, the web server serves one PDF
  at every address but those of the host \<^verbatim>\<open>down.example\<close>, the object store answers 200
  with a key, and the catalog answers 201 with the record.
\<close>

definition example_pdf :: get_response where
  "example_pdf =
     \<lparr>status_ok = True, content_disposition = None, content_type = Some ''application/pdf'',
      length_header_ok = True, body = ''%PDF-1.4'', stream_ok = True\<rparr>"

definition example_env :: env where
  "example_env =
     \<lparr>uuid4 = (\<lambda>n. ''doc-'' @ replicate n (CHR ''x'')),
      clock = (\<lambda>n. ''2024-05-01T12:00:00''),
      http_get = (\<lambda>n url. if py_in ''down.example'' url then GetRaised else GetResponse example_pdf),
      storage_post = (\<lambda>n bucket path content. PostResponse 200 (Some (PDict [(''Key'', PStr (bucket @ ''/'' @ path))]))),
      catalog_post = (\<lambda>n table r. PostResponse 201 (Some (PList [r]))),
      guess_type = (\<lambda>filename. Some ''application/pdf''),
      guess_extension = (\<lambda>t. Some ''.pdf''),
      can_write = (\<lambda>path. True),
      to_datetime = (\<lambda>s. None),
      temp_dir = ''/tmp/tmpab12''\<rparr>"

definition example_args :: args where
  "example_args =
     \<lparr>excel_file = ''links.xlsx'', column = ''link'', name_column = None, type_column = None,
      author_column = None, date_column = None\<rparr>"

definition link_row :: "pyval \<Rightarrow> (pyval \<times> pyval) list" where
  "link_row v = [(PStr ''link'', v), (PStr ''title'', PStr ''Annual report'')]"

definition example_columns :: "pyval list" where
  "example_columns = [PStr ''link'', PStr ''title'']"

text \<open>A sheet whose second row holds a number in the link column.\<close>

definition number_sheet :: dataframe where
  "number_sheet =
     \<lparr>columns = example_columns,
      rows = [link_row (PStr ''''), link_row (PNum 42),
              link_row (PStr ''https://example.com/files/report.pdf'')]\<rparr>"

text \<open>
  A world in which the PDF has been downloaded, and a world whose object store answers
  201 (created) with a key.
\<close>

definition downloaded :: world where
  "downloaded = world0\<lparr>files := [(''/tmp/tmpab12/report.pdf'', ''%PDF-1.4'')]\<rparr>"

definition created_env :: env where
  "created_env =
     example_env\<lparr>storage_post :=
       (\<lambda>n bucket path content. PostResponse 201 (Some (PDict [(''Key'', PStr (bucket @ ''/'' @ path))])))\<rparr>"

text \<open>A sheet with a plain link and a sharing link of the provider.\<close>

definition two_links :: dataframe where
  "two_links =
     \<lparr>columns = example_columns,
      rows = [link_row (PStr ''https://example.com/files/report.pdf''),
              link_row (PStr ''https://drive.google.com/file/d/1AbC/view?usp=sharing'')]\<rparr>"

section \<open>An invariant of the run\<close>

text \<open>
  The identifiers of the inserted records are identifiers drawn so far, in the order
  in which they were drawn.
\<close>

definition ids_in_order :: "env \<Rightarrow> world \<Rightarrow> bool" where
  "ids_in_order ev w =
     (\<exists>ns. inserted_ids (trace w) = map (\<lambda>n. PStr (uuid4 ev n)) ns \<and>
           sorted_wrt (<) ns \<and> (\<forall>n\<in>set ns. n < uuids_drawn w))"


section \<open>Properties of the string operations\<close>

lemma split_on_not_Nil: "split_on sep s \<noteq> []"
  by (induction sep s rule: split_on.induct) (auto split: list.splits)

lemma py_in_single: "py_in [c] s = (c \<in> set s)"
  by (induction s) auto

lemma split_on_absent: "\<not> py_in sep s \<Longrightarrow> split_on sep s = [s]"
  by (induction s) auto

lemma prefix_shorter: "prefix xs (ys @ zs) \<Longrightarrow> length xs \<le> length ys \<Longrightarrow> prefix xs ys"
  using prefix_length_prefix[of xs "ys @ zs" ys] by simp

lemma split_on_first:
  assumes "sep \<noteq> []"
  shows "\<not> py_in sep (pre @ butlast sep) \<Longrightarrow> split_on sep (pre @ sep @ rest) = pre # split_on sep rest"
proof (induction pre)
  case Nil
  from assms obtain c cs where sep: "sep = c # cs" by (cases sep) auto
  then show ?case by simp
next
  case (Cons p ps)
  have "\<not> prefix sep (p # ps @ butlast sep)" and rest: "\<not> py_in sep (ps @ butlast sep)"
    using Cons.prems by auto
  moreover have "length sep \<le> length (p # ps @ butlast sep)" using assms by (cases sep) auto
  ultimately have "\<not> prefix sep ((p # ps @ butlast sep) @ [last sep] @ rest)"
    using prefix_shorter by blast
  moreover have "butlast sep @ last sep # rest = sep @ rest"
    using append_butlast_last_id[OF assms] by (metis append.assoc append_Cons append_Nil)
  ultimately have np: "\<not> prefix sep (p # ps @ sep @ rest)" by simp
  show ?case using np Cons.IH[OF rest] by simp
qed

lemma split_on_head:
  "sep \<noteq> [] \<Longrightarrow> \<exists>p ps. split_on sep s = p # ps \<and> (p = s \<or> (\<exists>zs. s = p @ sep @ zs))"
proof (induction s)
  case Nil
  then show ?case by simp
next
  case (Cons c cs)
  show ?case
  proof (cases "prefix sep (c # cs)")
    case True
    then obtain zs where zs: "c # cs = sep @ zs" by (auto simp: prefix_def)
    have "split_on sep (c # cs) = [] # split_on sep (drop (length sep) (c # cs))"
      using True Cons.prems by simp
    moreover have "c # cs = [] @ sep @ zs" using zs by simp
    ultimately show ?thesis by blast
  next
    case False
    from Cons.IH[OF Cons.prems] obtain p ps where
      "split_on sep cs = p # ps" "p = cs \<or> (\<exists>zs. cs = p @ sep @ zs)" by blast
    then show ?thesis using False by auto
  qed
qed

lemma split_on_char_head: "\<exists>ps. split_on [c] s = takeWhile (\<lambda>d. d \<noteq> c) s # ps"
  by (induction s) auto

lemma takeWhile_stop: "\<not> P y \<Longrightarrow> takeWhile P (xs @ y # ys) = takeWhile P xs"
  by (induction xs) auto

lemma takeWhile_twice: "takeWhile Q (takeWhile P xs) = takeWhile (\<lambda>x. P x \<and> Q x) xs"
  by (induction xs) auto

lemma py_in_Nil: "py_in [] s"
  by (cases s) auto

lemma py_in_append: "py_in sep (xs @ sep @ ys)"
proof (induction xs)
  case Nil
  show ?case by (cases sep) (auto simp: py_in_Nil)
qed auto

lemma py_index_0: "xs = p # ps \<Longrightarrow> py_index xs 0 = Inr p"
  by (simp add: py_index_def)

lemma py_index_1: "xs = p # q # ps \<Longrightarrow> py_index xs 1 = Inr q"
  by (simp add: py_index_def)


lemma py_in_iff: "py_in sub s = (\<exists>xs ys. s = xs @ sub @ ys)"
proof
  show "py_in sub s \<Longrightarrow> \<exists>xs ys. s = xs @ sub @ ys"
  proof (induction s)
    case Nil
    then show ?case by simp
  next
    case (Cons c cs)
    show ?case
    proof (cases "prefix sub (c # cs)")
      case True
      then obtain ys where "c # cs = [] @ sub @ ys" by (auto simp: prefix_def)
      then show ?thesis by blast
    next
      case False
      with Cons obtain xs ys where "cs = xs @ sub @ ys" by auto
      then have "c # cs = (c # xs) @ sub @ ys" by simp
      then show ?thesis by blast
    qed
  qed
next
  show "\<exists>xs ys. s = xs @ sub @ ys \<Longrightarrow> py_in sub s"
    using py_in_append by blast
qed

lemma py_in_part: "py_in (x @ sep @ y) s \<Longrightarrow> py_in sep s"
proof -
  assume "py_in (x @ sep @ y) s"
  then obtain xs ys where "s = xs @ (x @ sep @ y) @ ys" unfolding py_in_iff by blast
  then have "s = (xs @ x) @ sep @ (y @ ys)" by simp
  then show ?thesis unfolding py_in_iff by blast
qed

lemma py_in_length: "py_in sub s \<Longrightarrow> length sub \<le> length s"
  unfolding py_in_iff by auto

lemma py_in_first:
  assumes "sep \<noteq> []"
  shows "py_in sep s \<Longrightarrow> \<exists>pre rest. s = pre @ sep @ rest \<and> \<not> py_in sep (pre @ butlast sep)"
proof (induction s)
  case Nil
  with assms show ?case by simp
next
  case (Cons c cs)
  show ?case
  proof (cases "prefix sep (c # cs)")
    case True
    then obtain rest where "c # cs = [] @ sep @ rest" by (auto simp: prefix_def)
    moreover have "\<not> py_in sep ([] @ butlast sep)"
    proof
      assume "py_in sep ([] @ butlast sep)"
      then have "py_in sep (butlast sep)" by simp
      then have "length sep \<le> length (butlast sep)"
        by (rule py_in_length)
      moreover have "0 < length sep" using assms by simp
      moreover have "length (butlast sep) = length sep - 1" by simp
      ultimately show False by arith
    qed
    ultimately show ?thesis by blast
  next
    case False
    with Cons obtain pre rest where pr: "cs = pre @ sep @ rest" "\<not> py_in sep (pre @ butlast sep)"
      by auto
    have e: "butlast sep @ last sep # rest = sep @ rest"
      using append_butlast_last_id[OF assms] by (metis append.assoc append_Cons append_Nil)
    have "\<not> prefix sep (c # pre @ butlast sep)"
    proof
      assume "prefix sep (c # pre @ butlast sep)"
      then have "prefix sep ((c # pre @ butlast sep) @ (last sep # rest))"
        using prefix_prefix by blast
      then show False using False pr(1) e by simp
    qed
    then have "\<not> py_in sep ((c # pre) @ butlast sep)" using pr(2) by simp
    moreover have "c # cs = (c # pre) @ sep @ rest" using pr(1) by simp
    ultimately show ?thesis by blast
  qed
qed

lemma split_on_two:
  assumes "sep \<noteq> []" "py_in sep s"
  shows "\<exists>p q ps. split_on sep s = p # q # ps"
proof -
  from py_in_first[OF assms] obtain pre rest where
    "s = pre @ sep @ rest" "\<not> py_in sep (pre @ butlast sep)" by blast
  then have "split_on sep s = pre # split_on sep rest"
    using split_on_first[OF assms(1)] by simp
  moreover obtain q ps where "split_on sep rest = q # ps"
    using split_on_not_Nil[of sep rest] by (cases "split_on sep rest") auto
  ultimately show ?thesis by simp
qed

lemma first_piece_char:
  "py_index (split_on [c] s) 0 = Inr (takeWhile (\<lambda>d. d \<noteq> c) s)"
  using split_on_char_head[of c s] by (auto simp: py_index_def)

lemma resolve_file_d:
  assumes url: "url = pre @ ''drive.google.com/file/d/'' @ rest"
    and first: "\<not> py_in ''/file/d/'' (pre @ ''drive.google.com/file/d'')"
  shows "resolve_url url = Inr (direct_download (takeWhile (\<lambda>c. c \<noteq> CHR ''/'' \<and> c \<noteq> CHR ''?'') rest))"
proof -
  have inn: "py_in ''drive.google.com/file/d/'' url"
    unfolding url by (rule py_in_append)
  have "split_on ''/file/d/'' ((pre @ ''drive.google.com'') @ ''/file/d/'' @ rest)
          = (pre @ ''drive.google.com'') # split_on ''/file/d/'' rest"
    by (rule split_on_first) (use first in simp_all)
  then have sp: "split_on ''/file/d/'' url = (pre @ ''drive.google.com'') # split_on ''/file/d/'' rest"
    by (simp add: url)
  obtain p ps where p: "split_on ''/file/d/'' rest = p # ps"
    "p = rest \<or> (\<exists>zs. rest = p @ ''/file/d/'' @ zs)"
    using split_on_head[of "''/file/d/''" rest] by auto
  have a: "py_index (split_on ''/file/d/'' url) 1 = Inr p"
    using sp p(1) by (simp add: py_index_1)
  have "takeWhile (\<lambda>d. d \<noteq> CHR ''/'') p = takeWhile (\<lambda>d. d \<noteq> CHR ''/'') rest"
  proof -
    { fix zs assume "rest = p @ ''/file/d/'' @ zs"
      then have "rest = p @ CHR ''/'' # (''file/d/'' @ zs)" by simp
      then have ?thesis using takeWhile_stop[of "\<lambda>d. d \<noteq> CHR ''/''" "CHR ''/''" p] by simp }
    then show ?thesis using p(2) by blast
  qed
  then have "takeWhile (\<lambda>d. d \<noteq> CHR ''?'') (takeWhile (\<lambda>d. d \<noteq> CHR ''/'') p)
      = takeWhile (\<lambda>d. d \<noteq> CHR ''?'') (takeWhile (\<lambda>d. d \<noteq> CHR ''/'') rest)"
    by simp
  then have b: "takeWhile (\<lambda>c. c \<noteq> CHR ''/'' \<and> c \<noteq> CHR ''?'') p
      = takeWhile (\<lambda>c. c \<noteq> CHR ''/'' \<and> c \<noteq> CHR ''?'') rest"
    by (simp only: takeWhile_twice)
  show ?thesis
    using inn a b by (simp add: resolve_url_def and_then_def first_piece_char takeWhile_twice)
qed

lemma resolve_open_id:
  assumes nof: "\<not> py_in ''drive.google.com/file/d/'' url"
    and url: "url = pre @ ''drive.google.com/open?id='' @ rest"
    and first: "\<not> py_in ''open?id='' (pre @ ''drive.google.com/open?id'')"
    and once: "\<not> py_in ''open?id='' (takeWhile (\<lambda>c. c \<noteq> CHR ''&'') rest)"
  shows "resolve_url url = Inr (direct_download (takeWhile (\<lambda>c. c \<noteq> CHR ''&'') rest))"
proof -
  have inn: "py_in ''drive.google.com/open?id='' url"
    unfolding url by (rule py_in_append)
  have "split_on ''open?id='' ((pre @ ''drive.google.com/'') @ ''open?id='' @ rest)
          = (pre @ ''drive.google.com/'') # split_on ''open?id='' rest"
    by (rule split_on_first) (use first in simp_all)
  then have sp: "split_on ''open?id='' url = (pre @ ''drive.google.com/'') # split_on ''open?id='' rest"
    by (simp add: url)
  obtain p ps where p: "split_on ''open?id='' rest = p # ps"
    "p = rest \<or> (\<exists>zs. rest = p @ ''open?id='' @ zs)"
    using split_on_head[of "''open?id=''" rest] by auto
  have a: "py_index (split_on ''open?id='' url) 1 = Inr p"
    using sp p(1) by (simp add: py_index_1)
  have "takeWhile (\<lambda>d. d \<noteq> CHR ''&'') p = takeWhile (\<lambda>d. d \<noteq> CHR ''&'') rest"
  proof -
    { fix zs assume r: "rest = p @ ''open?id='' @ zs"
      have ?thesis
      proof (cases "CHR ''&'' \<in> set p")
        case True
        then show ?thesis unfolding r by (simp add: takeWhile_append1)
      next
        case False
        then have "\<And>x. x \<in> set p \<Longrightarrow> x \<noteq> CHR ''&''" by auto
        then have "takeWhile (\<lambda>d. d \<noteq> CHR ''&'') rest = p @ ''open?id='' @ takeWhile (\<lambda>d. d \<noteq> CHR ''&'') zs"
          unfolding r by (simp add: takeWhile_append2)
        then have "py_in ''open?id='' (takeWhile (\<lambda>d. d \<noteq> CHR ''&'') rest)"
          using py_in_append[of "''open?id=''" p] by simp
        with once show ?thesis by simp
      qed }
    then show ?thesis using p(2) by blast
  qed
  then show ?thesis
    using inn nof a by (simp add: resolve_url_def and_then_def first_piece_char)
qed

lemma resolve_total: "\<exists>g. resolve_url url = Inr g"
proof (cases "py_in ''drive.google.com/file/d/'' url")
  case True
  then have "py_in ''/file/d/'' url"
    using py_in_part[of "''drive.google.com''" "''/file/d/''" "[]" url] by simp
  then obtain p q ps where "split_on ''/file/d/'' url = p # q # ps"
    using split_on_two[of "''/file/d/''" url] by auto
  then have "py_index (split_on ''/file/d/'' url) 1 = Inr q" by (simp add: py_index_1)
  then show ?thesis using True by (simp add: resolve_url_def and_then_def first_piece_char)
next
  case False
  show ?thesis
  proof (cases "py_in ''drive.google.com/open?id='' url")
    case True
    then have "py_in ''open?id='' url"
      using py_in_part[of "''drive.google.com/''" "''open?id=''" "[]" url] by simp
    then obtain p q ps where "split_on ''open?id='' url = p # q # ps"
      using split_on_two[of "''open?id=''" url] by auto
    then have "py_index (split_on ''open?id='' url) 1 = Inr q" by (simp add: py_index_1)
    then show ?thesis using True False by (simp add: resolve_url_def and_then_def first_piece_char)
  next
    case F2: False
    then show ?thesis using False by (simp add: resolve_url_def)
  qed
qed

section \<open>The link resolver rewrites the provider's sharing links\<close>

text \<open>
  Claim C4, as the code has it. The two patterns carry the provider's host:
  \<^verbatim>\<open>drive.google.com/file/d/\<close> and \<^verbatim>\<open>drive.google.com/open?id=\<close>. For a URL whose
  first \<^verbatim>\<open>/file/d/\<close> is the one of the first pattern, the result is the direct-download
  address of the identifier that runs from that segment to the next \<^verbatim>\<open>/\<close> or \<^verbatim>\<open>?\<close>.
  For a URL without the first pattern whose first \<^verbatim>\<open>open?id=\<close> is the one of the second
  pattern, the result is the direct-download address of the identifier that runs to the
  next \<^verbatim>\<open>&\<close> (the identifier holding no further \<^verbatim>\<open>open?id=\<close>). A URL with neither
  pattern is returned unchanged. The resolver never raises.
\<close>

theorem resolve_url_rewrites:
  "(url = pre @ ''drive.google.com/file/d/'' @ rest \<and>
      \<not> py_in ''/file/d/'' (pre @ ''drive.google.com/file/d'') \<longrightarrow>
      resolve_url url =
        Inr (direct_download (takeWhile (\<lambda>c. c \<noteq> CHR ''/'' \<and> c \<noteq> CHR ''?'') rest))) \<and>
   (\<not> py_in ''drive.google.com/file/d/'' url \<and>
      url = pre @ ''drive.google.com/open?id='' @ rest \<and>
      \<not> py_in ''open?id='' (pre @ ''drive.google.com/open?id'') \<and>
      \<not> py_in ''open?id='' (takeWhile (\<lambda>c. c \<noteq> CHR ''&'') rest) \<longrightarrow>
      resolve_url url = Inr (direct_download (takeWhile (\<lambda>c. c \<noteq> CHR ''&'') rest))) \<and>
   (\<not> py_in ''drive.google.com/file/d/'' url \<and> \<not> py_in ''drive.google.com/open?id='' url \<longrightarrow>
      resolve_url url = Inr url) \<and>
   (\<exists>g. resolve_url url = Inr g)"
proof (intro conjI impI)
  assume "url = pre @ ''drive.google.com/file/d/'' @ rest \<and>
      \<not> py_in ''/file/d/'' (pre @ ''drive.google.com/file/d'')"
  then show "resolve_url url =
        Inr (direct_download (takeWhile (\<lambda>c. c \<noteq> CHR ''/'' \<and> c \<noteq> CHR ''?'') rest))"
    using resolve_file_d[of url pre rest] by blast
next
  assume "\<not> py_in ''drive.google.com/file/d/'' url \<and>
      url = pre @ ''drive.google.com/open?id='' @ rest \<and>
      \<not> py_in ''open?id='' (pre @ ''drive.google.com/open?id'') \<and>
      \<not> py_in ''open?id='' (takeWhile (\<lambda>c. c \<noteq> CHR ''&'') rest)"
  then show "resolve_url url = Inr (direct_download (takeWhile (\<lambda>c. c \<noteq> CHR ''&'') rest))"
    using resolve_open_id[of url pre rest] by blast
next
  assume "\<not> py_in ''drive.google.com/file/d/'' url \<and> \<not> py_in ''drive.google.com/open?id='' url"
  then show "resolve_url url = Inr url"
    by (simp add: resolve_url_def)
next
  show "\<exists>g. resolve_url url = Inr g" by (rule resolve_total)
qed

text \<open>The theorem of claim C4 at two links of the first form, one of the second and a plain link.\<close>

theorem resolve_url_rewrites_witness:
  "resolve_url ''https://drive.google.com/file/d/1AbC/view?usp=sharing''
     = Inr ''https://drive.google.com/uc?export=download&id=1AbC'' \<and>
   resolve_url ''https://drive.google.com/file/d/1AbC?usp=sharing''
     = Inr ''https://drive.google.com/uc?export=download&id=1AbC'' \<and>
   resolve_url ''https://drive.google.com/open?id=9xYz&authuser=0''
     = Inr ''https://drive.google.com/uc?export=download&id=9xYz'' \<and>
   resolve_url ''https://example.com/files/report.pdf'' = Inr ''https://example.com/files/report.pdf''"
proof -
  have a: "resolve_url ''https://drive.google.com/file/d/1AbC/view?usp=sharing''
     = Inr ''https://drive.google.com/uc?export=download&id=1AbC''"
    using resolve_url_rewrites[of "''https://drive.google.com/file/d/1AbC/view?usp=sharing''"
        "''https://''" "''1AbC/view?usp=sharing''"]
    by (simp add: direct_download_def)
  have b: "resolve_url ''https://drive.google.com/file/d/1AbC?usp=sharing''
     = Inr ''https://drive.google.com/uc?export=download&id=1AbC''"
    using resolve_url_rewrites[of "''https://drive.google.com/file/d/1AbC?usp=sharing''"
        "''https://''" "''1AbC?usp=sharing''"]
    by (simp add: direct_download_def)
  have c: "resolve_url ''https://drive.google.com/open?id=9xYz&authuser=0''
     = Inr ''https://drive.google.com/uc?export=download&id=9xYz''"
    using resolve_url_rewrites[of "''https://drive.google.com/open?id=9xYz&authuser=0''"
        "''https://''" "''9xYz&authuser=0''"]
    by (simp add: direct_download_def)
  have d: "resolve_url ''https://example.com/files/report.pdf'' = Inr ''https://example.com/files/report.pdf''"
    using resolve_url_rewrites[of "''https://example.com/files/report.pdf''" "[]" "[]"]
    by simp
  from a b c d show ?thesis by blast
qed

text \<open>
  Claim C4 as it is stated fails: a URL of another host contains \<^verbatim>\<open>open?id=\<close> and no
  \<^verbatim>\<open>file/d/\<close>, so the stated rule rewrites it, and the code returns it unchanged.
\<close>

theorem resolve_url_counterexample:
  "py_in ''open?id='' ''https://example.com/open?id=9xYz&authuser=0'' \<and>
   \<not> py_in ''file/d/'' ''https://example.com/open?id=9xYz&authuser=0'' \<and>
   resolve_url ''https://example.com/open?id=9xYz&authuser=0''
     = Inr ''https://example.com/open?id=9xYz&authuser=0'' \<and>
   spec_resolve ''https://example.com/open?id=9xYz&authuser=0''
     = ''https://drive.google.com/uc?export=download&id=9xYz''"
  by (simp add: resolve_url_def spec_resolve_def direct_download_def)

section \<open>A missing link column ends the run\<close>

text \<open>
  Claim C7: when the requested link column is not among the columns of the sheet, the
  run ends with exit status 1 in its initial state: no row is processed and no network
  call is made.
\<close>

theorem missing_link_column_aborts:
  "PStr (column a) \<notin> set (columns df) \<Longrightarrow>
     main ev a (Sheet df) = (1, tally0, world0) \<and> trace world0 = []"
  by (simp add: main_def main_try_def world0_def)

text \<open>The theorem of claim C7 on a sheet whose link column has another name.\<close>

theorem missing_link_column_aborts_witness:
  "PStr (column example_args) \<notin> set [PStr ''url'', PStr ''title''] \<and>
   main example_env example_args
     (Sheet \<lparr>columns = [PStr ''url'', PStr ''title''],
             rows = [[(PStr ''url'', PStr ''https://example.com/a.pdf''), (PStr ''title'', PStr ''A'')]]\<rparr>)
     = (1, tally0, world0) \<and> trace world0 = []"
  using missing_link_column_aborts[of example_args
     "\<lparr>columns = [PStr ''url'', PStr ''title''],
             rows = [[(PStr ''url'', PStr ''https://example.com/a.pdf''), (PStr ''title'', PStr ''A'')]]\<rparr>" example_env]
  by (simp add: example_args_def)

section \<open>Rows without a link, and rows whose link is not text\<close>

lemma strip_blank: "list_all (\<lambda>c. c \<in> set whitespace) u \<Longrightarrow> py_strip u = []"
proof -
  assume "list_all (\<lambda>c. c \<in> set whitespace) u"
  then have "lstrip_chars whitespace u = []"
    by (simp add: lstrip_chars_def list_all_iff)
  moreover have "lstrip_chars whitespace [] = []"
    by (simp add: lstrip_chars_def)
  ultimately show ?thesis
    by (simp add: py_strip_def strip_chars_def)
qed

lemma run_rows_append:
  "run_rows ev a cols (pre @ rest) s =
     (case run_rows ev a cols pre s of
        (None, s') \<Rightarrow> run_rows ev a cols rest s'
      | (Some e, s') \<Rightarrow> (Some e, s'))"
  by (induction pre arbitrary: s) (auto split: sum.splits)

text \<open>
  Claim C8: a row whose link cell is missing, empty or made of whitespace only leaves
  the counters and the world as they are (so no fetch and no ingestion happens for it),
  and the loop goes on with the next row.
\<close>

theorem blank_link_row_is_skipped:
  assumes "map_of row (PStr (column a)) = Some v"
    and "isna v \<or> (\<exists>u. v = PStr u \<and> list_all (\<lambda>c. c \<in> set whitespace) u)"
  shows "process_row ev a cols row s = Inr s \<and>
         run_rows ev a cols (row # rest) s = run_rows ev a cols rest s"
proof -
  have "process_row ev a cols row s = Inr s"
    using assms
    by (auto simp: process_row_def row_get_def and_then_def strip_blank split: pyval.splits)
  then show ?thesis by simp
qed

text \<open>
  The theorem of claim C8 on a row of three spaces, on a row with an empty cell and on a
  row holding a no-break space and a next-line character.
\<close>

theorem blank_link_row_is_skipped_witness:
  "process_row example_env example_args example_columns (link_row (PStr ''   '')) (tally0, world0)
     = Inr (tally0, world0) \<and>
   process_row example_env example_args example_columns (link_row PNaN) (tally0, world0)
     = Inr (tally0, world0) \<and>
   process_row example_env example_args example_columns (link_row (PStr [CHR 0xA0, CHR 0x85]))
       (tally0, world0)
     = Inr (tally0, world0) \<and>
   run_rows example_env example_args example_columns
       [link_row (PStr ''   ''), link_row (PStr ''https://example.com/files/report.pdf'')] (tally0, world0)
     = run_rows example_env example_args example_columns
       [link_row (PStr ''https://example.com/files/report.pdf'')] (tally0, world0)"
proof -
  have a: "map_of (link_row (PStr ''   '')) (PStr (column example_args)) = Some (PStr ''   '')"
    by (simp add: link_row_def example_args_def)
  have b: "isna (PStr ''   '') \<or> (\<exists>u. PStr ''   '' = PStr u \<and> list_all (\<lambda>c. c \<in> set whitespace) u)"
    by (simp add: whitespace_def)
  have c: "map_of (link_row PNaN) (PStr (column example_args)) = Some PNaN"
    by (simp add: link_row_def example_args_def)
  have d: "isna PNaN \<or> (\<exists>u. PNaN = PStr u \<and> list_all (\<lambda>c. c \<in> set whitespace) u)"
    by simp
  have e: "map_of (link_row (PStr [CHR 0xA0, CHR 0x85])) (PStr (column example_args))
             = Some (PStr [CHR 0xA0, CHR 0x85])"
    by (simp add: link_row_def example_args_def)
  have f: "isna (PStr [CHR 0xA0, CHR 0x85]) \<or>
      (\<exists>u. PStr [CHR 0xA0, CHR 0x85] = PStr u \<and> list_all (\<lambda>c. c \<in> set whitespace) u)"
    by (simp add: whitespace_def)
  show ?thesis
    using blank_link_row_is_skipped[OF a b, of example_env example_columns "(tally0, world0)"
        "[link_row (PStr ''https://example.com/files/report.pdf'')]"]
      blank_link_row_is_skipped[OF c d, of example_env example_columns "(tally0, world0)" "[]"]
      blank_link_row_is_skipped[OF e f, of example_env example_columns "(tally0, world0)" "[]"]
    by simp
qed

text \<open>
  Claim C9: a link cell that is present and is not a string makes the blank test raise.
  The row is neither skipped nor counted: the loop ends with the state the row started
  from, the rows after it are not processed, and the run exits with status 1.
\<close>

theorem non_string_link_aborts_run:
  assumes "map_of row (PStr (column a)) = Some v" and "\<not> isna v" and "\<not> is_str v"
    and "PStr (column a) \<in> set (columns df)"
    and "rows df = pre @ row # rest"
    and "run_rows ev a (columns df) pre (tally0, world0) = (None, s)"
  shows "process_row ev a (columns df) row s = Inl AttributeError \<and>
         run_rows ev a (columns df) (row # rest) s = (Some AttributeError, s) \<and>
         main ev a (Sheet df) = (1, s)"
proof -
  have p: "process_row ev a (columns df) row s = Inl AttributeError"
    using assms(1-3) by (cases v) (auto simp: process_row_def row_get_def and_then_def)
  then have r: "run_rows ev a (columns df) (row # rest) s = (Some AttributeError, s)"
    by simp
  have "run_rows ev a (columns df) (rows df) (tally0, world0) = (Some AttributeError, s)"
    using r assms(5,6) by (simp add: run_rows_append)
  then have "main ev a (Sheet df) = (1, s)"
    using assms(4) by (simp add: main_def main_try_def)
  with p r show ?thesis by simp
qed

text \<open>The theorem of claim C9 on a sheet with an empty link, the number 42 and a link.\<close>

theorem non_string_link_aborts_run_witness:
  "process_row example_env example_args (columns number_sheet) (link_row (PNum 42)) (tally0, world0)
     = Inl AttributeError \<and>
   run_rows example_env example_args (columns number_sheet)
      [link_row (PNum 42), link_row (PStr ''https://example.com/files/report.pdf'')] (tally0, world0)
     = (Some AttributeError, tally0, world0) \<and>
   main example_env example_args (Sheet number_sheet) = (1, tally0, world0)"
proof -
  have a: "map_of (link_row (PNum 42)) (PStr (column example_args)) = Some (PNum 42)"
    by (simp add: link_row_def example_args_def)
  have b: "\<not> isna (PNum 42)" and c: "\<not> is_str (PNum 42)" by simp_all
  have d: "PStr (column example_args) \<in> set (columns number_sheet)"
    by (simp add: number_sheet_def example_columns_def example_args_def)
  have e: "rows number_sheet = [link_row (PStr '''')] @ link_row (PNum 42) #
             [link_row (PStr ''https://example.com/files/report.pdf'')]"
    by (simp add: number_sheet_def)
  have f: "run_rows example_env example_args (columns number_sheet) [link_row (PStr '''')] (tally0, world0)
             = (None, tally0, world0)"
    by (simp add: process_row_def row_get_def and_then_def link_row_def example_args_def
        py_strip_def strip_chars_def lstrip_chars_def)
  show ?thesis
    using non_string_link_aborts_run[OF a b c d e f] by simp
qed

section \<open>The type classifier\<close>

lemma path_name_plain: "CHR ''/'' \<notin> set f \<Longrightarrow> f \<noteq> ''.'' \<Longrightarrow> path_name f = f"
proof -
  assume a: "CHR ''/'' \<notin> set f" and b: "f \<noteq> ''.''"
  have "split_on ''/'' f = [f]"
    by (rule split_on_absent) (use a in \<open>simp add: py_in_single\<close>)
  then show ?thesis using b by (simp add: path_name_def)
qed

lemma rfind_last_dot:
  assumes "name = stem @ CHR ''.'' # ext" and "CHR ''.'' \<notin> set ext"
  shows "rfind_char (CHR ''.'') name = Some (length stem)"
proof -
  have "takeWhile (\<lambda>d. d \<noteq> CHR ''.'') (rev ext @ CHR ''.'' # rev stem)
          = rev ext @ takeWhile (\<lambda>d. d \<noteq> CHR ''.'') (CHR ''.'' # rev stem)"
    by (rule takeWhile_append2) (use assms(2) in auto)
  then have "takeWhile (\<lambda>d. d \<noteq> CHR ''.'') (rev ext @ CHR ''.'' # rev stem) = rev ext"
    by simp
  then have "takeWhile (\<lambda>d. d \<noteq> CHR ''.'') (rev name) = rev ext"
    by (simp add: assms(1))
  then show ?thesis by (simp add: rfind_char_def assms(1))
qed

lemma lower_char_dot: "(lower_char c = CHR ''.'') = (c = CHR ''.'')"
  by (auto simp: lower_char_def upper_letters_def lower_letters_def)

lemma lstrip_lowered:
  assumes "CHR ''.'' \<notin> set ext"
  shows "lstrip_chars ''.'' (py_lower (CHR ''.'' # ext)) = py_lower ext"
proof (cases ext)
  case Nil
  then show ?thesis by (simp add: lstrip_chars_def py_lower_def lower_char_dot)
next
  case (Cons e es)
  then have "lower_char e \<noteq> CHR ''.''" using assms by (auto simp: lower_char_dot)
  then show ?thesis using Cons by (simp add: lstrip_chars_def py_lower_def lower_char_dot)
qed

lemma file_type_of_suffix:
  "get_file_type filename = canonical_type (lstrip_chars ''.'' (py_lower (path_suffix filename)))"
  by (simp add: get_file_type_def canonical_type_def Let_def)

lemma file_type_inner_dot:
  assumes "path_name filename = stem @ ''.'' @ ext" and "stem \<noteq> []" and "ext \<noteq> []"
    and "CHR ''.'' \<notin> set ext"
  shows "get_file_type filename = canonical_type (py_lower ext)"
proof -
  have n: "path_name filename = stem @ CHR ''.'' # ext" using assms(1) by simp
  have "rfind_char (CHR ''.'') (path_name filename) = Some (length stem)"
    using rfind_last_dot[OF n assms(4)] .
  then have "path_suffix filename = CHR ''.'' # ext"
    using assms(2,3) n by (simp add: path_suffix_def Let_def)
  then show ?thesis
    by (simp add: file_type_of_suffix lstrip_lowered[OF assms(4)])
qed

lemma canonical_empty: "canonical_type [] = []"
  by (simp add: canonical_type_def)

lemma file_type_no_suffix: "path_suffix filename = [] \<Longrightarrow> get_file_type filename = []"
  by (simp add: file_type_of_suffix canonical_empty lstrip_chars_def py_lower_def)

lemma file_type_without_extension:
  assumes "CHR ''.'' \<notin> set (path_name filename) \<or>
           (path_name filename = ''.'' @ ext \<and> CHR ''.'' \<notin> set ext) \<or>
           path_name filename = stem @ ''.''"
  shows "get_file_type filename = []"
proof -
  have "path_suffix filename = []"
  proof -
    { assume "CHR ''.'' \<notin> set (path_name filename)"
      then have ?thesis by (simp add: path_suffix_def rfind_char_def) }
    moreover
    { assume a: "path_name filename = ''.'' @ ext \<and> CHR ''.'' \<notin> set ext"
      then have "rfind_char (CHR ''.'') (path_name filename) = Some (length ([]::string))"
        using rfind_last_dot[of "path_name filename" "[]" ext] by simp
      then have ?thesis by (simp add: path_suffix_def) }
    moreover
    { assume a: "path_name filename = stem @ ''.''"
      then have "rfind_char (CHR ''.'') (path_name filename) = Some (length stem)"
        using rfind_last_dot[of "path_name filename" stem "[]"] by simp
      then have ?thesis using a by (simp add: path_suffix_def) }
    ultimately show ?thesis using assms by blast
  qed
  then show ?thesis by (rule file_type_no_suffix)
qed

text \<open>
  Claim C5, as the code has it. The classifier is a total function of the file name,
  and the extension is the suffix of the last path component as \<^verbatim>\<open>pathlib\<close> defines
  it: when the last dot of that component is neither its first nor its last character,
  the type is the canonical type of the text after that dot in lower case (pdf to pdf,
  doc and docx to docx, ppt and pptx to pptx, xls and xlsx to xlsx, any other text to
  itself); when the component has no dot, only a leading dot, or ends with a dot, the
  type is empty. A name without a slash is its own last component. The four examples
  of the specification hold.
\<close>

theorem get_file_type_classifies:
  "(path_name filename = stem @ ''.'' @ ext \<and> stem \<noteq> [] \<and> ext \<noteq> [] \<and> CHR ''.'' \<notin> set ext \<longrightarrow>
      get_file_type filename = canonical_type (py_lower ext)) \<and>
   (CHR ''.'' \<notin> set (path_name filename) \<or>
      (path_name filename = ''.'' @ ext \<and> CHR ''.'' \<notin> set ext) \<or>
      path_name filename = stem @ ''.'' \<longrightarrow>
      get_file_type filename = []) \<and>
   (CHR ''/'' \<notin> set filename \<and> filename \<noteq> ''.'' \<longrightarrow> path_name filename = filename) \<and>
   get_file_type ''Report.PDF'' = ''pdf'' \<and>
   get_file_type ''notes.docx'' = ''docx'' \<and>
   get_file_type ''archive.tar.gz'' = ''gz'' \<and>
   get_file_type ''README'' = []"
proof (intro conjI impI)
  assume "path_name filename = stem @ ''.'' @ ext \<and> stem \<noteq> [] \<and> ext \<noteq> [] \<and> CHR ''.'' \<notin> set ext"
  then show "get_file_type filename = canonical_type (py_lower ext)"
    using file_type_inner_dot by blast
next
  assume "CHR ''.'' \<notin> set (path_name filename) \<or>
      (path_name filename = ''.'' @ ext \<and> CHR ''.'' \<notin> set ext) \<or>
      path_name filename = stem @ ''.''"
  then show "get_file_type filename = []" by (rule file_type_without_extension)
next
  assume "CHR ''/'' \<notin> set filename \<and> filename \<noteq> ''.''"
  then show "path_name filename = filename" using path_name_plain by blast
next
  show "get_file_type ''Report.PDF'' = ''pdf''"
    by (simp add: get_file_type_def path_suffix_def path_name_def rfind_char_def py_lower_def
        lower_char_def upper_letters_def lower_letters_def lstrip_chars_def)
next
  show "get_file_type ''notes.docx'' = ''docx''"
    by (simp add: get_file_type_def path_suffix_def path_name_def rfind_char_def py_lower_def
        lower_char_def upper_letters_def lower_letters_def lstrip_chars_def)
next
  show "get_file_type ''archive.tar.gz'' = ''gz''"
    by (simp add: get_file_type_def path_suffix_def path_name_def rfind_char_def py_lower_def
        lower_char_def upper_letters_def lower_letters_def lstrip_chars_def)
next
  show "get_file_type ''README'' = []"
    by (simp add: get_file_type_def path_suffix_def path_name_def rfind_char_def py_lower_def
        lower_char_def upper_letters_def lower_letters_def lstrip_chars_def)
qed

text \<open>
  The theorem of claim C5 on a name with two dots, a dot file, a plain name and a name
  whose extension holds a capital letter above code point 127.
\<close>

theorem get_file_type_classifies_witness:
  "get_file_type ''slides.final.PPT'' = ''pptx'' \<and>
   get_file_type ''.bashrc'' = [] \<and>
   path_name ''Sheet.XLS'' = ''Sheet.XLS'' \<and>
   get_file_type [CHR ''x'', CHR ''.'', CHR 0xC0, CHR ''B''] = [CHR 0xE0, CHR ''b'']"
proof -
  have l: "path_name [CHR ''x'', CHR ''.'', CHR 0xC0, CHR ''B''] = ''x'' @ ''.'' @ [CHR 0xC0, CHR ''B'']"
    by (simp add: path_name_def)
  have d: "get_file_type [CHR ''x'', CHR ''.'', CHR 0xC0, CHR ''B''] = [CHR 0xE0, CHR ''b'']"
    using get_file_type_classifies[of "[CHR ''x'', CHR ''.'', CHR 0xC0, CHR ''B'']" "''x''"
        "[CHR 0xC0, CHR ''B'']"] l
    by (simp add: canonical_type_def py_lower_def lower_char_def upper_letters_def lower_letters_def)
  have n: "path_name ''slides.final.PPT'' = ''slides.final'' @ ''.'' @ ''PPT''"
    by (simp add: path_name_def)
  have a: "get_file_type ''slides.final.PPT'' = ''pptx''"
    using get_file_type_classifies[of "''slides.final.PPT''" "''slides.final''" "''PPT''"] n
    by (simp add: canonical_type_def py_lower_def lower_char_def upper_letters_def lower_letters_def)
  have m: "path_name ''.bashrc'' = ''.'' @ ''bashrc''"
    by (simp add: path_name_def)
  have b: "get_file_type ''.bashrc'' = []"
    using get_file_type_classifies[of "''.bashrc''" "[]" "''bashrc''"] m by simp
  have c: "path_name ''Sheet.XLS'' = ''Sheet.XLS''"
    using get_file_type_classifies[of "''Sheet.XLS''" "[]" "[]"] by simp
  from a b c d show ?thesis by blast
qed

text \<open>
  Claim C5 as it is stated fails: the text after the last dot of \<^verbatim>\<open>.pdf\<close> is
  \<^verbatim>\<open>pdf\<close>, which the stated rule maps to \<^verbatim>\<open>pdf\<close>, and the code gives the empty type.
\<close>

theorem get_file_type_counterexample:
  "get_file_type ''.pdf'' = [] \<and> spec_file_type ''.pdf'' = ''pdf''"
  by (simp add: get_file_type_def path_suffix_def path_name_def rfind_char_def py_lower_def
      lower_char_def upper_letters_def lower_letters_def lstrip_chars_def spec_file_type_def text_after_last_dot_def canonical_type_def)

section \<open>The ingestor\<close>

text \<open>The definitions that a concrete run unfolds.\<close>

lemmas eval_defs = upload_to_supabase_def supabase_upload_file_def supabase_insert_record_def
  emit_def Let_def example_env_def created_env_def downloaded_def world0_def example_pdf_def
  doc_metadata_def catalog_record_def field_def dict_get_def
  download_file_def infer_filename_def path_join_def resolve_url_def and_then_def py_index_def
  direct_download_def

lemma file_type_report: "get_file_type ''report.pdf'' = ''pdf''"
  by (simp add: get_file_type_def path_suffix_def path_name_def rfind_char_def py_lower_def
        lower_char_def upper_letters_def lower_letters_def lstrip_chars_def)

lemma upload_file_world:
  "snd (supabase_upload_file ev b k c (Some h) w) =
     emit (StorageUpload b k c (if h \<noteq> [] then Some h else None)) w"
  by (simp add: supabase_upload_file_def Let_def split: post_outcome.splits option.splits)

lemma upload_file_result:
  "(\<exists>v. fst (supabase_upload_file ev b k c h w) = Inr v \<and> has_key v) =
     accepted (storage_post ev (length (trace w)) b k c)"
  by (auto simp: supabase_upload_file_def Let_def accepted_def has_key_def
      split: post_outcome.splits option.splits)

lemma insert_record_world:
  "snd (supabase_insert_record ev t r w) = emit (CatalogInsert t r) w"
  by (simp add: supabase_insert_record_def Let_def split: post_outcome.splits option.splits)

lemma accepted_iff: "accepted ans = (\<exists>v. ans = PostResponse 200 (Some v) \<and> has_key v)"
  by (auto simp: accepted_def split: post_outcome.splits option.splits)

lemma upload_outcomes:
  assumes "upload_to_supabase ev file_path filename metadata w = (r, w')"
  shows "uuids_drawn w' = Suc (uuids_drawn w) \<and> files w' = files w \<and>
   ((map_of (files w) file_path = None \<and> r = None \<and> trace w' = trace w) \<or>
    (\<exists>c h. map_of (files w) file_path = Some c \<and>
        \<not> accepted (storage_post ev (length (trace w)) ''documents''
             (uuid4 ev (uuids_drawn w) @ ''/'' @ filename) c) \<and>
        r = None \<and>
        trace w' = trace w @
          [StorageUpload ''documents'' (uuid4 ev (uuids_drawn w) @ ''/'' @ filename) c (Some h)]) \<or>
    (\<exists>c h. map_of (files w) file_path = Some c \<and>
        accepted (storage_post ev (length (trace w)) ''documents''
             (uuid4 ev (uuids_drawn w) @ ''/'' @ filename) c) \<and>
        (r = None \<or> r = Some (uuid4 ev (uuids_drawn w))) \<and>
        trace w' = trace w @
          [StorageUpload ''documents'' (uuid4 ev (uuids_drawn w) @ ''/'' @ filename) c (Some h),
           CatalogInsert ''documents''
             (catalog_record (uuid4 ev (uuids_drawn w)) filename (get_file_type filename) (length c)
                (uuid4 ev (uuids_drawn w) @ ''/'' @ filename)
                (doc_metadata metadata filename (get_file_type filename)
                   (clock ev (Suc (length (trace w))))))]))"
proof (cases "map_of (files w) file_path")
  case None
  with assms show ?thesis by (auto simp: upload_to_supabase_def Let_def)
next
  case (Some c)
  define w0 where "w0 = w\<lparr>uuids_drawn := Suc (uuids_drawn w)\<rparr>"
  define ctype where "ctype = (case guess_type ev filename of None \<Rightarrow> ''application/octet-stream''
                           | Some t \<Rightarrow> if t \<noteq> [] then t else ''application/octet-stream'')"
  define sk where "sk = uuid4 ev (uuids_drawn w) @ ''/'' @ filename"
  have ct: "ctype \<noteq> []" by (simp add: ctype_def split: option.splits)
  obtain res w1 where up_eq: "supabase_upload_file ev ''documents'' sk c (Some ctype) w0 = (res, w1)"
    by (cases "supabase_upload_file ev ''documents'' sk c (Some ctype) w0")
  have w1: "w1 = emit (StorageUpload ''documents'' sk c (Some ctype)) w0"
    using upload_file_world[of ev "''documents''" sk c ctype w0] up_eq ct by simp
  have tr1: "trace w1 = trace w @ [StorageUpload ''documents'' sk c (Some ctype)]"
    and u1: "uuids_drawn w1 = Suc (uuids_drawn w)" and f1: "files w1 = files w"
    by (simp_all add: w1 emit_def w0_def)
  have acc: "(\<exists>v. res = Inr v \<and> has_key v) = accepted (storage_post ev (length (trace w)) ''documents'' sk c)"
    using upload_file_result[of ev "''documents''" sk c "Some ctype" w0] up_eq by (simp add: w0_def)
  have step: "upload_to_supabase ev file_path filename metadata w =
     (case (res, w1) of (Inl e, w1) \<Rightarrow> (None, w1)
       | (Inr result, w1) \<Rightarrow>
                     if \<not> truthy result then (None, w1)
                     else (case py_get result ''Key'' of
                             Inl e \<Rightarrow> (None, w1)
                           | Inr key \<Rightarrow>
                               if \<not> truthy key then (None, w1)
                               else
                                 (let now = clock ev (length (trace w1));
                                      md = doc_metadata metadata filename (get_file_type filename) now;
                                      rcd = catalog_record (uuid4 ev (uuids_drawn w)) filename (get_file_type filename)
                                                 (length c) sk md
                                  in case supabase_insert_record ev ''documents'' rcd w1 of
                                       (Inl e, w2) \<Rightarrow> (None, w2)
                                     | (Inr db_result, w2) \<Rightarrow>
                                         if \<not> truthy db_result then (None, w2)
                                         else (Some (uuid4 ev (uuids_drawn w)), w2))))"
    unfolding up_eq[symmetric] upload_to_supabase_def Let_def w0_def ctype_def sk_def
    using Some by simp
  show ?thesis
  proof (cases "\<exists>v. res = Inr v \<and> has_key v")
    case False
    then have "\<not> accepted (storage_post ev (length (trace w)) ''documents'' sk c)"
      using acc by simp
    moreover have "r = None \<and> w' = w1"
      using assms False unfolding step
      by (auto simp: has_key_def split: sum.splits if_splits)
    ultimately show ?thesis using Some tr1 u1 f1 unfolding sk_def by blast
  next
    case True
    then obtain v where v: "res = Inr v" "has_key v" by blast
    then obtain key where key: "py_get v ''Key'' = Inr key" "truthy key" "truthy v"
      by (auto simp: has_key_def split: sum.splits)
    define now where "now = clock ev (length (trace w1))"
    define rcd where "rcd = catalog_record (uuid4 ev (uuids_drawn w)) filename (get_file_type filename)
                         (length c) sk (doc_metadata metadata filename (get_file_type filename) now)"
    define ins where "ins = supabase_insert_record ev ''documents'' rcd w1"
    have w2: "snd ins = emit (CatalogInsert ''documents'' rcd) w1"
      unfolding ins_def by (rule insert_record_world)
    have "(r, w') = (case ins of (Inl e, w2) \<Rightarrow> (None, w2)
                                     | (Inr db_result, w2) \<Rightarrow>
                                         if \<not> truthy db_result then (None, w2)
                                         else (Some (uuid4 ev (uuids_drawn w)), w2))"
      using assms unfolding step using v key by (simp add: Let_def ins_def rcd_def now_def)
    then have rw: "(r = None \<or> r = Some (uuid4 ev (uuids_drawn w))) \<and> w' = snd ins"
      by (cases ins) (auto split: sum.splits if_splits)
    have a: "accepted (storage_post ev (length (trace w)) ''documents'' sk c)"
      using acc True by simp
    have nw: "now = clock ev (Suc (length (trace w)))" by (simp add: now_def tr1)
    have tr2: "trace w' = trace w @ [StorageUpload ''documents'' sk c (Some ctype), CatalogInsert ''documents'' rcd]"
      and u2: "uuids_drawn w' = Suc (uuids_drawn w)" and f2: "files w' = files w"
      using rw w2 tr1 u1 f1 by (simp_all add: emit_def)
    show ?thesis
      using Some a rw tr2 u2 f2 unfolding rcd_def sk_def nw by blast
  qed
qed

text \<open>
  Claim C1: a call of the ingestor adds to the trace nothing, one upload, or one upload
  followed by one insert. It returns an identifier only after an insert, and an insert
  is made only after the upload helper, called before it, returned a result with a
  key. So when the helper returns no result or a result without a key, there is no
  insert and the ingestor returns a failure.
\<close>

theorem catalog_insert_needs_storage_key:
  assumes "upload_to_supabase ev file_path filename metadata w = (r, w')"
  shows "\<exists>new. trace w' = trace w @ new \<and>
     (r \<noteq> None \<longrightarrow> list_ex is_catalog_insert new) \<and>
     (list_ex is_catalog_insert new \<longrightarrow>
        (\<exists>k c h rcd v.
           new = [StorageUpload ''documents'' k c h, CatalogInsert ''documents'' rcd] \<and>
           fst (supabase_upload_file ev ''documents'' k c h (w\<lparr>uuids_drawn := Suc (uuids_drawn w)\<rparr>))
             = Inr v \<and>
           has_key v))"
proof -
  let ?k = "uuid4 ev (uuids_drawn w) @ ''/'' @ filename"
  let ?w0 = "w\<lparr>uuids_drawn := Suc (uuids_drawn w)\<rparr>"
  from upload_outcomes[OF assms] consider
    (unread) "r = None" "trace w' = trace w"
  | (refused) c h where "r = None" "trace w' = trace w @ [StorageUpload ''documents'' ?k c (Some h)]"
  | (stored) c h rcd where
      "accepted (storage_post ev (length (trace w)) ''documents'' ?k c)"
      "trace w' = trace w @ [StorageUpload ''documents'' ?k c (Some h), CatalogInsert ''documents'' rcd]"
    by blast
  then show ?thesis
  proof cases
    case unread
    then show ?thesis by simp
  next
    case refused
    then show ?thesis by simp
  next
    case stored
    have "\<exists>v. fst (supabase_upload_file ev ''documents'' ?k c (Some h) ?w0) = Inr v \<and> has_key v"
      using stored(1) upload_file_result[of ev "''documents''" ?k c "Some h" ?w0] by simp
    then show ?thesis using stored(2) by auto
  qed
qed

text \<open>
  The theorem of claim C1 where the object store answers 201 (no insert, a failure) and
  where it answers 200 with a key (an insert).
\<close>

theorem catalog_insert_needs_storage_key_witness:
  "fst (upload_to_supabase created_env ''/tmp/tmpab12/report.pdf'' ''report.pdf'' None downloaded) = None \<and>
   trace (snd (upload_to_supabase created_env ''/tmp/tmpab12/report.pdf'' ''report.pdf'' None downloaded))
     = [StorageUpload ''documents'' ''doc-/report.pdf'' ''%PDF-1.4'' (Some ''application/pdf'')] \<and>
   fst (upload_to_supabase example_env ''/tmp/tmpab12/report.pdf'' ''report.pdf'' None downloaded)
     = Some ''doc-'' \<and>
   list_ex is_catalog_insert
     (trace (snd (upload_to_supabase example_env ''/tmp/tmpab12/report.pdf'' ''report.pdf'' None downloaded)))"
proof -
  have a: "upload_to_supabase example_env ''/tmp/tmpab12/report.pdf'' ''report.pdf'' None downloaded
     = (fst (upload_to_supabase example_env ''/tmp/tmpab12/report.pdf'' ''report.pdf'' None downloaded),
        snd (upload_to_supabase example_env ''/tmp/tmpab12/report.pdf'' ''report.pdf'' None downloaded))"
    by simp
  have b: "fst (upload_to_supabase example_env ''/tmp/tmpab12/report.pdf'' ''report.pdf'' None downloaded)
     = Some ''doc-''"
    by (simp add: eval_defs file_type_report)
  have c: "trace downloaded = []" by (simp add: downloaded_def world0_def)
  have d: "list_ex is_catalog_insert
     (trace (snd (upload_to_supabase example_env ''/tmp/tmpab12/report.pdf'' ''report.pdf'' None downloaded)))"
    using catalog_insert_needs_storage_key[OF a] b c by auto
  have e: "upload_to_supabase created_env ''/tmp/tmpab12/report.pdf'' ''report.pdf'' None downloaded
     = (None, \<lparr>trace = [StorageUpload ''documents'' ''doc-/report.pdf'' ''%PDF-1.4'' (Some ''application/pdf'')],
        uuids_drawn = 1, files = [(''/tmp/tmpab12/report.pdf'', ''%PDF-1.4'')]\<rparr>)"
    by (simp add: eval_defs file_type_report)
  from b d e show ?thesis by simp
qed

text \<open>
  Claim C6, as the code has it. For a file that can be read, the upload is a success
  exactly when the object store answers with status code 200 and a body holding a key:
  then the insert into the catalog follows the upload. After any other answer (another
  status code, also another 200-class one, no key, a body that is not JSON, a failed
  request) the ingestor returns a failure after the upload alone; the orchestrator
  counts the row as failed and goes on.
\<close>

theorem storage_success_is_status_200_with_key:
  assumes "upload_to_supabase ev file_path filename metadata w = (r, w')"
    and "map_of (files w) file_path = Some c"
    and "ans = storage_post ev (length (trace w)) ''documents''
                 (uuid4 ev (uuids_drawn w) @ ''/'' @ filename) c"
  shows "((\<exists>v. ans = PostResponse 200 (Some v) \<and> has_key v) \<longrightarrow>
            (\<exists>h rcd. trace w' = trace w @
               [StorageUpload ''documents'' (uuid4 ev (uuids_drawn w) @ ''/'' @ filename) c h,
                CatalogInsert ''documents'' rcd])) \<and>
         (\<not> (\<exists>v. ans = PostResponse 200 (Some v) \<and> has_key v) \<longrightarrow>
            r = None \<and>
            (\<exists>h. trace w' = trace w @
               [StorageUpload ''documents'' (uuid4 ev (uuids_drawn w) @ ''/'' @ filename) c h])) \<and>
         (r = None \<and> metadata = Some md \<and> file_path \<noteq> [] \<and>
            download_file ev url (temp_dir ev) w0 = (Some (file_path, filename), w) \<longrightarrow>
            fetch_and_ingest ev url md (t, w0) = (count_failure t, w'))"
proof -
  have "accepted ans = (\<exists>v. ans = PostResponse 200 (Some v) \<and> has_key v)"
    by (rule accepted_iff)
  moreover have "r = None \<and> metadata = Some md \<and> file_path \<noteq> [] \<and>
            download_file ev url (temp_dir ev) w0 = (Some (file_path, filename), w) \<longrightarrow>
            fetch_and_ingest ev url md (t, w0) = (count_failure t, w')"
    using assms(1) by (auto simp: fetch_and_ingest_def)
  ultimately show ?thesis
    using upload_outcomes[OF assms(1)] assms(2,3) by auto
qed

text \<open>
  The theorem of claim C6 on a row whose upload is answered with 201, and on an upload
  answered with 200 and a key.
\<close>

theorem storage_success_is_status_200_with_key_witness:
  "upload_to_supabase created_env ''/tmp/tmpab12/report.pdf'' ''report.pdf''
       (Some [(''url'', PStr ''https://example.com/files/report.pdf'')])
       (snd (download_file created_env ''https://example.com/files/report.pdf'' ''/tmp/tmpab12'' world0))
     = (None,
        \<lparr>trace = [HttpGet ''https://example.com/files/report.pdf'',
                  StorageUpload ''documents'' ''doc-/report.pdf'' ''%PDF-1.4'' (Some ''application/pdf'')],
         uuids_drawn = 1, files = [(''/tmp/tmpab12/report.pdf'', ''%PDF-1.4'')]\<rparr>) \<and>
   fetch_and_ingest created_env ''https://example.com/files/report.pdf''
       [(''url'', PStr ''https://example.com/files/report.pdf'')] (tally0, world0)
     = (count_failure tally0,
        \<lparr>trace = [HttpGet ''https://example.com/files/report.pdf'',
                  StorageUpload ''documents'' ''doc-/report.pdf'' ''%PDF-1.4'' (Some ''application/pdf'')],
         uuids_drawn = 1, files = [(''/tmp/tmpab12/report.pdf'', ''%PDF-1.4'')]\<rparr>) \<and>
   list_ex is_catalog_insert
     (trace (snd (upload_to_supabase example_env ''/tmp/tmpab12/report.pdf'' ''report.pdf'' None downloaded)))"
proof -
  let ?md = "[(''url'', PStr ''https://example.com/files/report.pdf'')]"
  let ?w = "\<lparr>trace = [HttpGet ''https://example.com/files/report.pdf''], uuids_drawn = 0,
       files = [(''/tmp/tmpab12/report.pdf'', ''%PDF-1.4'')]\<rparr>"
  let ?w' = "\<lparr>trace = [HttpGet ''https://example.com/files/report.pdf'',
                  StorageUpload ''documents'' ''doc-/report.pdf'' ''%PDF-1.4'' (Some ''application/pdf'')],
         uuids_drawn = 1, files = [(''/tmp/tmpab12/report.pdf'', ''%PDF-1.4'')]\<rparr>"
  have dl: "download_file created_env ''https://example.com/files/report.pdf'' (temp_dir created_env) world0
     = (Some (''/tmp/tmpab12/report.pdf'', ''report.pdf''), ?w)"
    by (simp add: eval_defs)
  have up: "upload_to_supabase created_env ''/tmp/tmpab12/report.pdf'' ''report.pdf'' (Some ?md) ?w = (None, ?w')"
    by (simp add: eval_defs file_type_report)
  have fl: "map_of (files ?w) ''/tmp/tmpab12/report.pdf'' = Some ''%PDF-1.4''" by simp
  have td: "temp_dir created_env = ''/tmp/tmpab12''" by (simp add: eval_defs)
  have refused: "fetch_and_ingest created_env ''https://example.com/files/report.pdf'' ?md (tally0, world0)
     = (count_failure tally0, ?w')"
    using storage_success_is_status_200_with_key[OF up fl refl,
        of ?md "''https://example.com/files/report.pdf''" world0 tally0] dl
    by simp
  have a: "upload_to_supabase example_env ''/tmp/tmpab12/report.pdf'' ''report.pdf'' None downloaded
     = (fst (upload_to_supabase example_env ''/tmp/tmpab12/report.pdf'' ''report.pdf'' None downloaded),
        snd (upload_to_supabase example_env ''/tmp/tmpab12/report.pdf'' ''report.pdf'' None downloaded))"
    by simp
  have fd: "map_of (files downloaded) ''/tmp/tmpab12/report.pdf'' = Some ''%PDF-1.4''"
    by (simp add: downloaded_def world0_def)
  have stored: "list_ex is_catalog_insert
     (trace (snd (upload_to_supabase example_env ''/tmp/tmpab12/report.pdf'' ''report.pdf'' None downloaded)))"
    using storage_success_is_status_200_with_key[OF a fd refl] 
    by (auto simp: example_env_def downloaded_def world0_def has_key_def)
  from up refused stored dl td show ?thesis by simp
qed

text \<open>
  Claim C6 as it is stated fails: an answer 201 with a key is a 200-class response
  containing a storage key, and the ingestor treats it as a failure.
\<close>

theorem storage_success_counterexample:
  "spec_storage_success
     (storage_post created_env 0 ''documents'' ''doc-/report.pdf'' ''%PDF-1.4'') \<and>
   upload_to_supabase created_env ''/tmp/tmpab12/report.pdf'' ''report.pdf'' None downloaded
     = (None,
        \<lparr>trace = [StorageUpload ''documents'' ''doc-/report.pdf'' ''%PDF-1.4'' (Some ''application/pdf'')],
         uuids_drawn = 1, files = [(''/tmp/tmpab12/report.pdf'', ''%PDF-1.4'')]\<rparr>)"
  by (simp add: eval_defs file_type_report spec_storage_success_def has_key_def)

text \<open>
  Claim C2 at the metadata the orchestrator passes when no date column is bound: the
  last-modified entry is null, where the claim says the current time. The current time
  is used only when no metadata is passed at all. The upload date is the current time.
\<close>

theorem last_modified_is_null_without_date:
  "field (doc_metadata (Some [(''url'', PStr ''https://example.com/files/report.pdf'')])
            ''report.pdf'' ''pdf'' ''2024-05-01T12:00:00'') ''last_modified'' = PNone \<and>
   field (doc_metadata None ''report.pdf'' ''pdf'' ''2024-05-01T12:00:00'') ''last_modified''
     = PStr ''2024-05-01T12:00:00'' \<and>
   field (doc_metadata (Some [(''url'', PStr ''https://example.com/files/report.pdf'')])
            ''report.pdf'' ''pdf'' ''2024-05-01T12:00:00'') ''upload_date''
     = PStr ''2024-05-01T12:00:00''"
  by (simp add: doc_metadata_def field_def dict_get_def)

section \<open>The orchestrator, row by row\<close>






lemma download_file_world:
  assumes "download_file ev u tmp w = (res, w1)"
  shows "uuids_drawn w1 = uuids_drawn w \<and>
         (trace w1 = trace w \<or> (\<exists>g. resolve_url u = Inr g \<and> trace w1 = trace w @ [HttpGet g]))"
proof (cases "resolve_url u")
  case (Inl e)
  with assms show ?thesis by (simp add: download_file_def)
next
  case (Inr g)
  have "uuids_drawn w1 = uuids_drawn w \<and> trace w1 = trace w @ [HttpGet g]"
    using assms Inr
    by (auto simp: download_file_def Let_def emit_def
        split: get_outcome.splits sum.splits if_splits)
  with Inr show ?thesis by blast
qed

lemma inserted_ids_append: "inserted_ids (xs @ ys) = inserted_ids xs @ inserted_ids ys"
  by (induction xs rule: inserted_ids.induct) auto

lemma record_fields:
  "field (catalog_record i fn ft sz sk md) ''id'' = PStr i"
  "field (catalog_record i fn ft sz sk md) ''filename'' = PStr fn"
  "field (catalog_record i fn ft sz sk md) ''storage_path'' = PStr sk"
  "field (catalog_record i fn ft sz sk md) ''metadata'' = md"
  by (simp_all add: catalog_record_def field_def)


lemma fetch_and_ingest_world:
  assumes "fetch_and_ingest ev u md (t, w) = (t', w')"
  shows "\<exists>new. trace w' = trace w @ new \<and>
     (\<forall>g. HttpGet g \<in> set new \<longrightarrow> resolve_url u = Inr g) \<and>
     (\<forall>tb rcd. CatalogInsert tb rcd \<in> set new \<longrightarrow>
        (\<exists>fn sz sk now. rcd = catalog_record (uuid4 ev (uuids_drawn w)) fn (get_file_type fn) sz sk
                               (doc_metadata (Some md) fn (get_file_type fn) now))) \<and>
     (inserted_ids new = [] \<or> inserted_ids new = [PStr (uuid4 ev (uuids_drawn w))]) \<and>
     uuids_drawn w \<le> uuids_drawn w' \<and>
     (inserted_ids new \<noteq> [] \<longrightarrow> uuids_drawn w < uuids_drawn w')"
proof -
  obtain res w1 where dl: "download_file ev u (temp_dir ev) w = (res, w1)"
    by (cases "download_file ev u (temp_dir ev) w")
  from download_file_world[OF dl] obtain pre where
    u1: "uuids_drawn w1 = uuids_drawn w" and t1: "trace w1 = trace w @ pre"
    and pre: "pre = [] \<or> (\<exists>g. resolve_url u = Inr g \<and> pre = [HttpGet g])"
    by auto
  have pre_ids: "inserted_ids pre = []" using pre by auto
  have pre_get: "\<forall>g. HttpGet g \<in> set pre \<longrightarrow> resolve_url u = Inr g" using pre by auto
  have pre_ins: "\<forall>tb rcd. CatalogInsert tb rcd \<notin> set pre" using pre by auto
  show ?thesis
  proof (cases "\<exists>p fn. res = Some (p, fn) \<and> p \<noteq> []")
    case False
    then have "w' = w1"
      using assms dl by (auto simp: fetch_and_ingest_def split: option.splits if_splits)
    then show ?thesis using t1 u1 pre_ids pre_get pre_ins by auto
  next
    case True
    then obtain p fn where res: "res = Some (p, fn)" "p \<noteq> []" by blast
    obtain r w2 where up: "upload_to_supabase ev p fn (Some md) w1 = (r, w2)"
      by (cases "upload_to_supabase ev p fn (Some md) w1")
    have w': "w' = w2"
      using assms dl res up by (auto simp: fetch_and_ingest_def split: option.splits if_splits)
    have u2: "uuids_drawn w2 = Suc (uuids_drawn w1)"
      using upload_outcomes[OF up] by simp
    from upload_outcomes[OF up] consider
      (unread) "trace w2 = trace w1"
    | (refused) k c h where "trace w2 = trace w1 @ [StorageUpload ''documents'' k c h]"
    | (stored) k c h sz sk now where
        "trace w2 = trace w1 @ [StorageUpload ''documents'' k c h,
            CatalogInsert ''documents'' (catalog_record (uuid4 ev (uuids_drawn w1)) fn (get_file_type fn)
               sz sk (doc_metadata (Some md) fn (get_file_type fn) now))]"
      by blast
    then have "\<exists>post. trace w2 = trace w1 @ post \<and>
        (inserted_ids post = [] \<or> inserted_ids post = [PStr (uuid4 ev (uuids_drawn w))]) \<and>
        (\<forall>g. HttpGet g \<notin> set post) \<and>
        (\<forall>tb rcd. CatalogInsert tb rcd \<in> set post \<longrightarrow>
          (\<exists>fn sz sk now. rcd = catalog_record (uuid4 ev (uuids_drawn w)) fn (get_file_type fn) sz sk
                               (doc_metadata (Some md) fn (get_file_type fn) now)))"
    proof cases
      case unread
      then show ?thesis by (intro exI[of _ "[]"]) simp
    next
      case refused
      then show ?thesis by (intro exI[of _ "[StorageUpload ''documents'' k c h]"]) simp
    next
      case stored
      then show ?thesis
        by (intro exI[of _ "[StorageUpload ''documents'' k c h,
            CatalogInsert ''documents'' (catalog_record (uuid4 ev (uuids_drawn w1)) fn (get_file_type fn)
               sz sk (doc_metadata (Some md) fn (get_file_type fn) now))]"])
          (auto simp: record_fields u1)
    qed
    then obtain post where t2: "trace w2 = trace w1 @ post"
      and post_ids: "inserted_ids post = [] \<or> inserted_ids post = [PStr (uuid4 ev (uuids_drawn w))]"
      and post_get: "\<forall>g. HttpGet g \<notin> set post"
      and post_ins: "\<forall>tb rcd. CatalogInsert tb rcd \<in> set post \<longrightarrow>
          (\<exists>fn sz sk now. rcd = catalog_record (uuid4 ev (uuids_drawn w)) fn (get_file_type fn) sz sk
                               (doc_metadata (Some md) fn (get_file_type fn) now))"
      by blast
    have "trace w' = trace w @ (pre @ post)" using w' t1 t2 by simp
    moreover have "\<forall>g. HttpGet g \<in> set (pre @ post) \<longrightarrow> resolve_url u = Inr g"
      using pre_get post_get by auto
    moreover have "\<forall>tb rcd. CatalogInsert tb rcd \<in> set (pre @ post) \<longrightarrow>
        (\<exists>fn sz sk now. rcd = catalog_record (uuid4 ev (uuids_drawn w)) fn (get_file_type fn) sz sk
                               (doc_metadata (Some md) fn (get_file_type fn) now))"
      using pre_ins post_ins by auto
    moreover have "inserted_ids (pre @ post) = [] \<or>
        inserted_ids (pre @ post) = [PStr (uuid4 ev (uuids_drawn w))]"
      using pre_ids post_ids by (simp add: inserted_ids_append)
    moreover have "uuids_drawn w < uuids_drawn w'" using w' u1 u2 by simp
    ultimately show ?thesis by (intro exI[of _ "pre @ post"]) auto
  qed
qed

lemma process_row_steps:
  assumes "process_row ev a cols row s = Inr s'"
  shows "s' = s \<or> (\<exists>u md. map_of row (PStr (column a)) = Some (PStr u) \<and>
            gather_metadata ev a cols row (PStr u) = Inr md \<and> s' = fetch_and_ingest ev u md s)"
  using assms
  by (auto simp: process_row_def row_get_def and_then_def
      split: option.splits pyval.splits if_splits sum.splits)

lemma fetch_and_ingest_ids:
  assumes "fetch_and_ingest ev u md (t, w) = (t', w')" and "ids_in_order ev w"
  shows "ids_in_order ev w'"
proof -
  from fetch_and_ingest_world[OF assms(1)] obtain new where
    tr: "trace w' = trace w @ new"
    and ids: "inserted_ids new = [] \<or> inserted_ids new = [PStr (uuid4 ev (uuids_drawn w))]"
    and le: "uuids_drawn w \<le> uuids_drawn w'"
    and lt: "inserted_ids new \<noteq> [] \<longrightarrow> uuids_drawn w < uuids_drawn w'"
    by blast
  from assms(2) obtain ns where
    ns: "inserted_ids (trace w) = map (\<lambda>n. PStr (uuid4 ev n)) ns" "sorted_wrt (<) ns"
      "\<forall>n\<in>set ns. n < uuids_drawn w"
    unfolding ids_in_order_def by blast
  show ?thesis
  proof (cases "inserted_ids new = []")
    case True
    then have "inserted_ids (trace w') = map (\<lambda>n. PStr (uuid4 ev n)) ns"
      using tr ns(1) by (simp add: inserted_ids_append)
    moreover have "\<forall>n\<in>set ns. n < uuids_drawn w'" using ns(3) le by auto
    ultimately show ?thesis unfolding ids_in_order_def using ns(2) by blast
  next
    case False
    then have one: "inserted_ids new = [PStr (uuid4 ev (uuids_drawn w))]" using ids by simp
    have "inserted_ids (trace w') = map (\<lambda>n. PStr (uuid4 ev n)) (ns @ [uuids_drawn w])"
      using tr ns(1) one by (simp add: inserted_ids_append)
    moreover have "sorted_wrt (<) (ns @ [uuids_drawn w])"
      using ns(2,3) by (simp add: sorted_wrt_append)
    moreover have "\<forall>n\<in>set (ns @ [uuids_drawn w]). n < uuids_drawn w'"
      using ns(3) lt False by auto
    ultimately show ?thesis unfolding ids_in_order_def by blast
  qed
qed

lemma run_rows_ids:
  "run_rows ev a cols rs (t, w) = (e, t', w') \<Longrightarrow> ids_in_order ev w \<Longrightarrow> ids_in_order ev w'"
proof (induction rs arbitrary: t w)
  case Nil
  then show ?case by simp
next
  case (Cons row rs)
  show ?case
  proof (cases "process_row ev a cols row (t, w)")
    case (Inl x)
    with Cons.prems show ?thesis by simp
  next
    case (Inr s1)
    obtain t1 w1 where s1: "s1 = (t1, w1)" by (cases s1)
    have "ids_in_order ev w1"
      using process_row_steps[OF Inr] fetch_and_ingest_ids[of ev _ _ t w t1 w1] Cons.prems(2) s1
      by auto
    moreover have "run_rows ev a cols rs (t1, w1) = (e, t', w')"
      using Cons.prems(1) Inr s1 by simp
    ultimately show ?thesis using Cons.IH by blast
  qed
qed

lemma ids_in_order_world0: "ids_in_order ev world0"
  unfolding ids_in_order_def by (intro exI[of _ "[]"]) (simp add: world0_def)

lemma main_ids:
  assumes "main ev a wb = (status, t, final)"
  shows "ids_in_order ev final"
proof (cases "\<exists>df. wb = Sheet df \<and> PStr (column a) \<in> set (columns df)")
  case False
  then have "final = world0"
    using assms by (cases wb) (auto simp: main_def main_try_def split: if_splits)
  then show ?thesis by (simp add: ids_in_order_world0)
next
  case True
  then obtain df where df: "wb = Sheet df" "PStr (column a) \<in> set (columns df)" by blast
  obtain e t1 w1 where rr: "run_rows ev a (columns df) (rows df) (tally0, world0) = (e, t1, w1)"
    by (cases "run_rows ev a (columns df) (rows df) (tally0, world0)")
  have "final = w1"
    using assms df rr by (auto simp: main_def main_try_def split: option.splits if_splits py_exc.splits)
  then show ?thesis using run_rows_ids[OF rr ids_in_order_world0] by simp
qed

lemma ids_in_order_distinct:
  assumes "ids_in_order ev w" and "inj (uuid4 ev)"
  shows "distinct (inserted_ids (trace w))"
proof -
  from assms(1) obtain ns where
    ns: "inserted_ids (trace w) = map (\<lambda>n. PStr (uuid4 ev n)) ns" "sorted_wrt (<) ns"
    unfolding ids_in_order_def by blast
  have "distinct ns" using ns(2) strict_sorted_iff by blast
  moreover have "inj_on (\<lambda>n. PStr (uuid4 ev n)) (set ns)"
    using assms(2) by (auto simp: inj_on_def inj_def)
  ultimately show ?thesis by (simp add: ns(1) distinct_map)
qed

lemmas run_defs = main_def main_try_def process_row_def row_get_def gather_metadata_def
  with_column_def fetch_and_ingest_def count_success_def count_failure_def tally0_def
  link_row_def example_args_def example_columns_def two_links_def
  py_strip_def strip_chars_def lstrip_chars_def whitespace_def

lemma file_type_uc: "get_file_type ''uc.pdf'' = ''pdf''"
  by (simp add: get_file_type_def path_suffix_def path_name_def rfind_char_def py_lower_def
        lower_char_def upper_letters_def lower_letters_def lstrip_chars_def)



lemma two_links_ids:
  "inserted_ids (trace (snd (snd (main example_env example_args (Sheet two_links)))))
     = [PStr ''doc-'', PStr ''doc-x'']"
  by (simp add: run_defs eval_defs file_type_uc file_type_report)

lemma example_uuid4_inj: "inj (uuid4 example_env)"
  by (simp add: example_env_def inj_def)




text \<open>
  Claim C3: an ingestion that succeeds returns the identifier drawn at its start; the
  bytes are uploaded under the key made of that identifier, a slash and the file name,
  and the record inserted next carries the same identifier, file name and storage path.
  When \<^verbatim>\<open>uuid4\<close> never repeats an identifier, the identifiers of the records inserted
  during one run are pairwise different.
\<close>

theorem document_ids_key_the_upload_and_differ:
  "(upload_to_supabase ev file_path filename metadata w = (Some d, w') \<longrightarrow>
      d = uuid4 ev (uuids_drawn w) \<and>
      (\<exists>c h rcd. trace w' = trace w @
           [StorageUpload ''documents'' (d @ ''/'' @ filename) c h, CatalogInsert ''documents'' rcd] \<and>
         field rcd ''id'' = PStr d \<and> field rcd ''filename'' = PStr filename \<and>
         field rcd ''storage_path'' = PStr (d @ ''/'' @ filename))) \<and>
   (inj (uuid4 ev) \<and> main ev a wb = (status, t, final) \<longrightarrow> distinct (inserted_ids (trace final)))"
proof (intro conjI impI)
  assume up: "upload_to_supabase ev file_path filename metadata w = (Some d, w')"
  from upload_outcomes[OF up] obtain c h where
    d: "d = uuid4 ev (uuids_drawn w)"
    and tr: "trace w' = trace w @
          [StorageUpload ''documents'' (uuid4 ev (uuids_drawn w) @ ''/'' @ filename) c (Some h),
           CatalogInsert ''documents''
             (catalog_record (uuid4 ev (uuids_drawn w)) filename (get_file_type filename) (length c)
                (uuid4 ev (uuids_drawn w) @ ''/'' @ filename)
                (doc_metadata metadata filename (get_file_type filename)
                   (clock ev (Suc (length (trace w))))))]"
    by auto
  show "d = uuid4 ev (uuids_drawn w)" by (rule d)
  show "\<exists>c h rcd. trace w' = trace w @
           [StorageUpload ''documents'' (d @ ''/'' @ filename) c h, CatalogInsert ''documents'' rcd] \<and>
         field rcd ''id'' = PStr d \<and> field rcd ''filename'' = PStr filename \<and>
         field rcd ''storage_path'' = PStr (d @ ''/'' @ filename)"
    using tr unfolding d by (auto simp: record_fields)
next
  assume "inj (uuid4 ev) \<and> main ev a wb = (status, t, final)"
  then show "distinct (inserted_ids (trace final))"
    using main_ids ids_in_order_distinct by blast
qed

text \<open>The theorem of claim C3 on one ingestion and on a run over two links.\<close>

theorem document_ids_key_the_upload_and_differ_witness:
  "inj (uuid4 example_env) \<and>
   inserted_ids (trace (snd (snd (main example_env example_args (Sheet two_links)))))
     = [PStr ''doc-'', PStr ''doc-x''] \<and>
   distinct (inserted_ids (trace (snd (snd (main example_env example_args (Sheet two_links)))))) \<and>
   fst (upload_to_supabase example_env ''/tmp/tmpab12/report.pdf'' ''report.pdf'' None downloaded)
     = Some (uuid4 example_env (uuids_drawn downloaded)) \<and>
   trace (snd (upload_to_supabase example_env ''/tmp/tmpab12/report.pdf'' ''report.pdf'' None downloaded))
     = [StorageUpload ''documents'' ''doc-/report.pdf'' ''%PDF-1.4'' (Some ''application/pdf''),
        CatalogInsert ''documents''
         (PDict
           [(''id'', PStr ''doc-''), (''filename'', PStr ''report.pdf''),
            (''filetype'', PStr ''pdf''), (''filesize'', PNum 8),
            (''storage_path'', PStr ''doc-/report.pdf''),
            (''title'', PStr ''report.pdf''), (''author'', PNone),
            (''upload_date'', PStr ''2024-05-01T12:00:00''),
            (''last_modified'', PStr ''2024-05-01T12:00:00''),
            (''metadata'',
             PDict
              [(''title'', PStr ''report.pdf''), (''author'', PNone),
               (''upload_date'', PStr ''2024-05-01T12:00:00''),
               (''last_modified'', PStr ''2024-05-01T12:00:00''), (''file_type'', PStr ''pdf''),
               (''source_url'', PNone)])])]"
proof -
  have run: "main example_env example_args (Sheet two_links)
     = (fst (main example_env example_args (Sheet two_links)),
        fst (snd (main example_env example_args (Sheet two_links))),
        snd (snd (main example_env example_args (Sheet two_links))))"
    by simp
  have d: "distinct (inserted_ids (trace (snd (snd (main example_env example_args (Sheet two_links))))))"
    using document_ids_key_the_upload_and_differ[of example_env _ _ _ _ _ _ example_args "Sheet two_links"
        "fst (main example_env example_args (Sheet two_links))"
        "fst (snd (main example_env example_args (Sheet two_links)))"
        "snd (snd (main example_env example_args (Sheet two_links)))"]
      example_uuid4_inj run by blast
  have up: "upload_to_supabase example_env ''/tmp/tmpab12/report.pdf'' ''report.pdf'' None downloaded
     = (Some ''doc-'',
        \<lparr>trace = [StorageUpload ''documents'' ''doc-/report.pdf'' ''%PDF-1.4'' (Some ''application/pdf''),
        CatalogInsert ''documents''
         (PDict
           [(''id'', PStr ''doc-''), (''filename'', PStr ''report.pdf''),
            (''filetype'', PStr ''pdf''), (''filesize'', PNum 8),
            (''storage_path'', PStr ''doc-/report.pdf''),
            (''title'', PStr ''report.pdf''), (''author'', PNone),
            (''upload_date'', PStr ''2024-05-01T12:00:00''),
            (''last_modified'', PStr ''2024-05-01T12:00:00''),
            (''metadata'',
             PDict
              [(''title'', PStr ''report.pdf''), (''author'', PNone),
               (''upload_date'', PStr ''2024-05-01T12:00:00''),
               (''last_modified'', PStr ''2024-05-01T12:00:00''), (''file_type'', PStr ''pdf''),
               (''source_url'', PNone)])])],
         uuids_drawn = 1, files = [(''/tmp/tmpab12/report.pdf'', ''%PDF-1.4'')]\<rparr>)"
    by (simp add: eval_defs file_type_report)
  have i: "uuid4 example_env (uuids_drawn downloaded) = ''doc-''"
    using document_ids_key_the_upload_and_differ[of example_env "''/tmp/tmpab12/report.pdf''"
        "''report.pdf''" None downloaded "''doc-''"] up
    by simp
  from example_uuid4_inj two_links_ids d up i show ?thesis by simp
qed

end
